theory Spec2Isabelle
  imports Main "HOL-Library.Word" "HOL-Library.Monad_Syntax"
begin

unbundle bit_operations_syntax

section \<open>Machine types\<close>

text \<open>
  The engine (snchwc.cpp) computes with \<open>size_t\<close> throughout; on the 64-bit targets of
  the library this is an unsigned 64-bit integer whose arithmetic wraps around.  The
  thread count and thread index are \<open>int32_t\<close>, the kernel flag word is \<open>unsigned\<close>.
  The \<open>int64_t\<close> shape arrays are cast element by element with \<open>size_t(...)\<close>, which
  keeps the 64 bits, so the arrays are modelled as lists of 64-bit words.
\<close>

type_synonym size_t = "64 word"
type_synonym int32_t = "32 word"
type_synonym unsigned = "32 word"

text \<open>
  A \<open>float*\<close> is a byte address; \<open>nullptr\<close> is address 0 and \<open>p + n\<close> moves
  by \<open>n * sizeof(float)\<close> bytes.
\<close>

type_synonym float_ptr = "64 word"

definition nullptr :: float_ptr where
  "nullptr = 0"

definition sizeof_float :: size_t where
  "sizeof_float = 4"

definition ptr_add :: "float_ptr \<Rightarrow> size_t \<Rightarrow> float_ptr" where
  "ptr_add p n = p + sizeof_float * n"

text \<open>
  Unsigned division and remainder trap on a zero divisor (undefined behaviour in C++,
  a hardware fault on the targets); the model returns \<open>None\<close> there.
\<close>

definition udiv :: "size_t \<Rightarrow> size_t \<Rightarrow> size_t option" where
  "udiv a b = (if b = 0 then None else Some (a div b))"

definition umod :: "size_t \<Rightarrow> size_t \<Rightarrow> size_t option" where
  "umod a b = (if b = 0 then None else Some (a mod b))"

text \<open>
  Reads and writes of C arrays: an index outside the array is undefined behaviour and
  is \<open>None\<close> in the model.
\<close>

definition rd :: "'a list \<Rightarrow> nat \<Rightarrow> 'a option" where
  "rd xs i = (if i < length xs then Some (xs ! i) else None)"

definition wr :: "'a list \<Rightarrow> nat \<Rightarrow> 'a \<Rightarrow> 'a list option" where
  "wr xs i v = (if i < length xs then Some (xs[i := v]) else None)"

section \<open>The work block\<close>

text \<open>
  \<open>struct MLAS_NCHWC_WORK_BLOCK\<close>.  The array fields have 3 entries
  (\<open>Padding\<close> has 6).
\<close>

record MLAS_NCHWC_WORK_BLOCK =
  tids :: int32_t
  BatchCount :: size_t
  InputChannels :: size_t
  InputShape :: "size_t list"
  InputSize :: size_t
  OutputChannels :: size_t
  OutputShape :: "size_t list"
  OutputSize :: size_t
  KernelShape :: "size_t list"
  DilationShape :: "size_t list"
  Padding :: "size_t list"
  StrideShape :: "size_t list"
  OutputCountLeftPad :: "size_t list"
  OutputCount :: "size_t list"
  OutputCountRightPad :: "size_t list"

section \<open>Shape preprocessor: one spatial dimension\<close>

text \<open>
  The body of the loop of \<open>MlasPrepareNchwcWorkBlock\<close> after the parameters of the
  dimension have been stored (source lines 168 to 200), one definition per local variable.
\<close>

definition SpanValue :: "size_t \<Rightarrow> size_t \<Rightarrow> size_t" where
  "SpanValue DilationValue KernelValue = DilationValue * (KernelValue - 1) + 1"

text \<open>The local \<open>OutputCount\<close> as first computed (lines 173 to 179).\<close>

definition InteriorOutputCount :: "size_t \<Rightarrow> size_t \<Rightarrow> size_t \<Rightarrow> size_t option" where
  "InteriorOutputCount InputValue Span StrideValue =
     (if InputValue \<ge> Span then
        do { q \<leftarrow> udiv (InputValue - Span) StrideValue; Some (q + 1) }
      else Some 0)"

text \<open>The local \<open>OutputCountWithLeftPad\<close> (lines 181 to 187).\<close>

definition OutputCountWithLeftPad ::
  "size_t \<Rightarrow> size_t \<Rightarrow> size_t \<Rightarrow> size_t \<Rightarrow> size_t \<Rightarrow> size_t option" where
  "OutputCountWithLeftPad InputValue PaddingLeftValue Span StrideValue OutputValue =
     (if InputValue + PaddingLeftValue \<ge> Span then
        do { q \<leftarrow> udiv (InputValue + PaddingLeftValue - Span) StrideValue; Some (q + 1) }
      else Some OutputValue)"

text \<open>
  The fix-up (lines 191 to 194): from the left-pad count and the interior count to the
  pair that is stored.
\<close>

definition LeftPadFixUp :: "size_t \<Rightarrow> size_t \<Rightarrow> size_t \<Rightarrow> size_t \<times> size_t" where
  "LeftPadFixUp PaddingLeftValue LeftPad Count =
     (if LeftPad = 0 \<and> PaddingLeftValue > 0 then (1, Count - 1) else (LeftPad, Count))"

text \<open>
  The three stored counts of one dimension:
  \<open>(OutputCountLeftPad, OutputCount, OutputCountRightPad)\<close>.
\<close>

definition DimensionCounts ::
  "size_t \<Rightarrow> size_t \<Rightarrow> size_t \<Rightarrow> size_t \<Rightarrow> size_t \<Rightarrow> size_t \<Rightarrow>
   (size_t \<times> size_t \<times> size_t) option" where
  "DimensionCounts InputValue OutputValue KernelValue DilationValue PaddingLeftValue StrideValue =
     do {
       let Span = SpanValue DilationValue KernelValue;
       Count \<leftarrow> InteriorOutputCount InputValue Span StrideValue;
       WithLeftPad \<leftarrow> OutputCountWithLeftPad InputValue PaddingLeftValue Span StrideValue OutputValue;
       let (LeftPad, Count') = LeftPadFixUp PaddingLeftValue (WithLeftPad - Count) Count;
       Some (LeftPad, Count', OutputValue - WithLeftPad)
     }"

section \<open>Shape preprocessor: the whole work block\<close>

text \<open>
  One iteration of the loop over \<open>dim\<close> (lines 127 to 201).  The state is the work
  block together with the running products \<open>InputSize\<close> and \<open>OutputSize\<close>.  The
  optional arrays are \<open>None\<close> for \<open>nullptr\<close>.  \<open>InputShape\<close> and
  \<open>OutputShape\<close> are the arrays after \<open>+= 2\<close>.
\<close>

definition PrepareDimension ::
  "nat \<Rightarrow> size_t list \<Rightarrow> size_t list option \<Rightarrow> size_t list option \<Rightarrow>
   size_t list option \<Rightarrow> size_t list option \<Rightarrow> size_t list \<Rightarrow> nat \<Rightarrow>
   ('a MLAS_NCHWC_WORK_BLOCK_scheme \<times> size_t \<times> size_t) \<Rightarrow>
   ('a MLAS_NCHWC_WORK_BLOCK_scheme \<times> size_t \<times> size_t) option" where
  "PrepareDimension Dimensions InputShape' KernelShape' DilationShape' Padding' StrideShape'
     OutputShape' dim s =
     (case s of (WorkBlock, InputSize', OutputSize') \<Rightarrow>
     do {
       InputValue \<leftarrow> rd InputShape' dim;
       OutputValue \<leftarrow> rd OutputShape' dim;
       is \<leftarrow> wr (InputShape WorkBlock) dim InputValue;
       os \<leftarrow> wr (OutputShape WorkBlock) dim OutputValue;
       KernelValue \<leftarrow> (case KernelShape' of Some k \<Rightarrow> rd k dim | None \<Rightarrow> Some InputValue);
       ks \<leftarrow> wr (KernelShape WorkBlock) dim KernelValue;
       DilationValue \<leftarrow> (case DilationShape' of Some d \<Rightarrow> rd d dim | None \<Rightarrow> Some 1);
       ds \<leftarrow> wr (DilationShape WorkBlock) dim DilationValue;
       PaddingLeftValue \<leftarrow> (case Padding' of Some p \<Rightarrow> rd p dim | None \<Rightarrow> Some 0);
       PaddingRightValue \<leftarrow>
         (case Padding' of Some p \<Rightarrow> rd p (dim + Dimensions) | None \<Rightarrow> Some 0);
       pl \<leftarrow> wr (Padding WorkBlock) dim PaddingLeftValue;
       ps \<leftarrow> wr pl (dim + Dimensions) PaddingRightValue;
       StrideValue \<leftarrow> (case StrideShape' of Some t \<Rightarrow> rd t dim | None \<Rightarrow> Some 1);
       ss \<leftarrow> wr (StrideShape WorkBlock) dim StrideValue;
       (LeftPad, Count, RightPad) \<leftarrow>
         DimensionCounts InputValue OutputValue KernelValue DilationValue PaddingLeftValue
           StrideValue;
       ls \<leftarrow> wr (OutputCountLeftPad WorkBlock) dim LeftPad;
       cs \<leftarrow> wr (OutputCount WorkBlock) dim Count;
       rs \<leftarrow> wr (OutputCountRightPad WorkBlock) dim RightPad;
       Some (WorkBlock\<lparr>InputShape := is, OutputShape := os, KernelShape := ks,
               DilationShape := ds, Padding := ps, StrideShape := ss,
               OutputCountLeftPad := ls, OutputCount := cs, OutputCountRightPad := rs\<rparr>,
             InputSize' * InputValue, OutputSize' * OutputValue)
     })"

text \<open>The loop \<open>for (dim = 0; dim < Dimensions; dim++)\<close>, \<open>n\<close> iterations from \<open>dim\<close>.\<close>

fun PrepareDimensions ::
  "nat \<Rightarrow> nat \<Rightarrow> nat \<Rightarrow> size_t list \<Rightarrow> size_t list option \<Rightarrow> size_t list option \<Rightarrow>
   size_t list option \<Rightarrow> size_t list option \<Rightarrow> size_t list \<Rightarrow>
   ('a MLAS_NCHWC_WORK_BLOCK_scheme \<times> size_t \<times> size_t) \<Rightarrow>
   ('a MLAS_NCHWC_WORK_BLOCK_scheme \<times> size_t \<times> size_t) option" where
  "PrepareDimensions 0 dim D i k d p t out s = Some s"
| "PrepareDimensions (Suc n) dim D i k d p t out s =
     do {
       s' \<leftarrow> PrepareDimension D i k d p t out dim s;
       PrepareDimensions n (Suc dim) D i k d p t out s'
     }"

text \<open>\<open>MlasPrepareNchwcWorkBlock\<close> (lines 97 to 205).\<close>

definition MlasPrepareNchwcWorkBlock ::
  "'a MLAS_NCHWC_WORK_BLOCK_scheme \<Rightarrow> size_t \<Rightarrow> size_t list \<Rightarrow> size_t list option \<Rightarrow>
   size_t list option \<Rightarrow> size_t list option \<Rightarrow> size_t list option \<Rightarrow> size_t list \<Rightarrow>
   'a MLAS_NCHWC_WORK_BLOCK_scheme option" where
  "MlasPrepareNchwcWorkBlock WorkBlock Dimensions InputShape' KernelShape' DilationShape'
     Padding' StrideShape' OutputShape' =
     do {
       b \<leftarrow> rd InputShape' 0;
       ci \<leftarrow> rd InputShape' 1;
       co \<leftarrow> rd OutputShape' 1;
       let WorkBlock1 = WorkBlock\<lparr>BatchCount := b, InputChannels := ci, OutputChannels := co\<rparr>;
       (WorkBlock2, InputSize', OutputSize') \<leftarrow>
         PrepareDimensions (unat Dimensions) 0 (unat Dimensions) (drop 2 InputShape')
           KernelShape' DilationShape' Padding' StrideShape' (drop 2 OutputShape')
           (WorkBlock1, 1, 1);
       Some (WorkBlock2\<lparr>InputSize := InputSize', OutputSize := OutputSize'\<rparr>)
     }"

text \<open>
  The parameters of dimension \<open>dim\<close> and its three counts as the work block holds them:
  input length, output length, kernel length, dilation, left padding, stride, and
  \<open>OutputCountLeftPad\<close>, \<open>OutputCount\<close>, \<open>OutputCountRightPad\<close>.
\<close>

definition StoredDimension ::
  "'a MLAS_NCHWC_WORK_BLOCK_scheme \<Rightarrow> nat \<Rightarrow>
   size_t \<times> size_t \<times> size_t \<times> size_t \<times> size_t \<times> size_t \<times> size_t \<times> size_t \<times> size_t" where
  "StoredDimension wb dim =
     (InputShape wb ! dim, OutputShape wb ! dim, KernelShape wb ! dim, DilationShape wb ! dim,
      Padding wb ! dim, StrideShape wb ! dim,
      OutputCountLeftPad wb ! dim, OutputCount wb ! dim, OutputCountRightPad wb ! dim)"

section \<open>Work blocks of convolution and pooling\<close>

text \<open>
  Modelled from the spec: the enumeration \<open>MLAS_ACTIVATION_KIND\<close> is declared in a
  header (mlas.h) that is not among the sources; the specification lists identity, ReLU,
  leaky ReLU, clip, sigmoid, tanh and hard sigmoid.  The engine only ever compares the
  kind with \<open>MlasIdentityActivation\<close> and \<open>MlasReluActivation\<close>.
\<close>

datatype MLAS_ACTIVATION_KIND =
    MlasIdentityActivation
  | MlasReluActivation
  | MlasLeakyReluActivation
  | MlasTanhActivation
  | MlasLogisticActivation
  | MlasClipActivation
  | MlasHardSigmoidActivation

text \<open>
  Modelled from the spec: the record \<open>MLAS_ACTIVATION\<close> is declared in the same
  missing header; of the tagged variant of the specification only the tag is read here.
\<close>

record MLAS_ACTIVATION =
  ActivationKind :: MLAS_ACTIVATION_KIND

text \<open>
  Modelled from the spec: the enumeration \<open>MLAS_POOLING_KIND\<close> is declared in the
  same missing header; the specification lists maximum pooling and the averages that
  exclude and include the padding.
\<close>

datatype MLAS_POOLING_KIND =
    MlasMaximumPooling
  | MlasAveragePoolingExcludePad
  | MlasAveragePoolingIncludePad

text \<open>\<open>struct MLAS_NCHWC_POOL_WORK_BLOCK : MLAS_NCHWC_WORK_BLOCK\<close>.\<close>

record MLAS_NCHWC_POOL_WORK_BLOCK = MLAS_NCHWC_WORK_BLOCK +
  Input :: float_ptr
  Output :: float_ptr
  PoolingKind :: MLAS_POOLING_KIND

text \<open>
  \<open>struct MLAS_NCHWC_CONV_WORK_BLOCK : MLAS_NCHWC_WORK_BLOCK\<close>; the pointer
  \<open>Activation\<close> is modelled by the record it points to.
\<close>

record MLAS_NCHWC_CONV_WORK_BLOCK = MLAS_NCHWC_WORK_BLOCK +
  Input :: float_ptr
  Filter :: float_ptr
  Bias :: float_ptr
  Activation :: MLAS_ACTIVATION
  Output :: float_ptr
  GroupCount :: size_t
  ZeroMode :: bool

section \<open>Base algorithm: captured constants and work partitioning\<close>

text \<open>
  The constructor of \<open>MLAS_NCHWC_NN_ALGORITHM\<close> copies these values out of the work
  block; they never change afterwards, so each is a function of the work block.
\<close>

definition HeightShapeIndex :: nat where
  "HeightShapeIndex = 0"

definition WidthShapeIndex :: nat where
  "WidthShapeIndex = 1"

definition InputHeight :: "'a MLAS_NCHWC_WORK_BLOCK_scheme \<Rightarrow> size_t" where
  "InputHeight WorkBlock = InputShape WorkBlock ! HeightShapeIndex"

definition InputWidth :: "'a MLAS_NCHWC_WORK_BLOCK_scheme \<Rightarrow> size_t" where
  "InputWidth WorkBlock = InputShape WorkBlock ! WidthShapeIndex"

definition OutputHeight :: "'a MLAS_NCHWC_WORK_BLOCK_scheme \<Rightarrow> size_t" where
  "OutputHeight WorkBlock = OutputShape WorkBlock ! HeightShapeIndex"

definition OutputWidth :: "'a MLAS_NCHWC_WORK_BLOCK_scheme \<Rightarrow> size_t" where
  "OutputWidth WorkBlock = OutputShape WorkBlock ! WidthShapeIndex"

definition KernelHeight :: "'a MLAS_NCHWC_WORK_BLOCK_scheme \<Rightarrow> size_t" where
  "KernelHeight WorkBlock = KernelShape WorkBlock ! HeightShapeIndex"

definition KernelWidth :: "'a MLAS_NCHWC_WORK_BLOCK_scheme \<Rightarrow> size_t" where
  "KernelWidth WorkBlock = KernelShape WorkBlock ! WidthShapeIndex"

definition KernelSize :: "'a MLAS_NCHWC_WORK_BLOCK_scheme \<Rightarrow> size_t" where
  "KernelSize WorkBlock = KernelHeight WorkBlock * KernelWidth WorkBlock"

definition DilationHeight :: "'a MLAS_NCHWC_WORK_BLOCK_scheme \<Rightarrow> size_t" where
  "DilationHeight WorkBlock = DilationShape WorkBlock ! HeightShapeIndex"

definition DilationWidth :: "'a MLAS_NCHWC_WORK_BLOCK_scheme \<Rightarrow> size_t" where
  "DilationWidth WorkBlock = DilationShape WorkBlock ! WidthShapeIndex"

definition PaddingLeftY :: "'a MLAS_NCHWC_WORK_BLOCK_scheme \<Rightarrow> size_t" where
  "PaddingLeftY WorkBlock = Padding WorkBlock ! HeightShapeIndex"

definition PaddingLeftX :: "'a MLAS_NCHWC_WORK_BLOCK_scheme \<Rightarrow> size_t" where
  "PaddingLeftX WorkBlock = Padding WorkBlock ! WidthShapeIndex"

definition StrideHeight :: "'a MLAS_NCHWC_WORK_BLOCK_scheme \<Rightarrow> size_t" where
  "StrideHeight WorkBlock = StrideShape WorkBlock ! HeightShapeIndex"

definition StrideWidth :: "'a MLAS_NCHWC_WORK_BLOCK_scheme \<Rightarrow> size_t" where
  "StrideWidth WorkBlock = StrideShape WorkBlock ! WidthShapeIndex"

definition OutputCountLeftPadY :: "'a MLAS_NCHWC_WORK_BLOCK_scheme \<Rightarrow> size_t" where
  "OutputCountLeftPadY WorkBlock = OutputCountLeftPad WorkBlock ! HeightShapeIndex"

definition OutputCountY :: "'a MLAS_NCHWC_WORK_BLOCK_scheme \<Rightarrow> size_t" where
  "OutputCountY WorkBlock = OutputCount WorkBlock ! HeightShapeIndex"

definition OutputCountLeftPadX :: "'a MLAS_NCHWC_WORK_BLOCK_scheme \<Rightarrow> size_t" where
  "OutputCountLeftPadX WorkBlock = OutputCountLeftPad WorkBlock ! WidthShapeIndex"

definition OutputCountX :: "'a MLAS_NCHWC_WORK_BLOCK_scheme \<Rightarrow> size_t" where
  "OutputCountX WorkBlock = OutputCount WorkBlock ! WidthShapeIndex"

definition OutputCountRightPadX :: "'a MLAS_NCHWC_WORK_BLOCK_scheme \<Rightarrow> size_t" where
  "OutputCountRightPadX WorkBlock = OutputCountRightPad WorkBlock ! WidthShapeIndex"

text \<open>
  \<open>PartitionWork\<close> (lines 273 to 293).  \<open>WorkBlock->tids\<close> and \<open>Index\<close> are
  \<open>int32_t\<close> and are converted to \<open>size_t\<close> by sign extension where they meet a
  \<open>size_t\<close>; \<open>uint32_t(Index)\<close> is converted by zero extension.  The result is
  \<open>(WorkIndex, WorkRemaining)\<close>.
\<close>

definition PartitionWork ::
  "int32_t \<Rightarrow> 'a MLAS_NCHWC_WORK_BLOCK_scheme \<Rightarrow> size_t \<Rightarrow> (size_t \<times> size_t) option" where
  "PartitionWork Index WorkBlock TotalWork =
     do {
       WorkPerThread \<leftarrow> udiv TotalWork (scast (tids WorkBlock));
       WorkPerThreadExtra \<leftarrow> umod TotalWork (scast (tids WorkBlock));
       if (ucast Index :: size_t) < WorkPerThreadExtra then
         Some ((WorkPerThread + 1) * scast Index, WorkPerThread + 1)
       else
         Some (WorkPerThread * scast Index + WorkPerThreadExtra, WorkPerThread)
     }"

section \<open>Effective kernel of an output row\<close>

text \<open>
  \<open>ComputeEffectiveKernel\<close> (lines 348 to 385).  The state of the walk over the
  kernel rows is the filter pointer, \<open>ih\<close>, \<open>EffectiveKernelHeight\<close> and \<open>ihStep\<close>; \<open>KernelWalkStep\<close>
  is the body of the \<open>for\<close> loop, which runs once for each \<open>kh < KernelHeight\<close>
  and does not read \<open>kh\<close>.
\<close>

definition KernelWalkStep ::
  "size_t \<Rightarrow> size_t \<Rightarrow> size_t \<Rightarrow> float_ptr \<times> size_t \<times> size_t \<times> size_t \<Rightarrow>
   float_ptr \<times> size_t \<times> size_t \<times> size_t" where
  "KernelWalkStep InputHeight' DilationHeight' FilterStride s =
     (case s of (filter', ih, EffectiveKernelHeight, ihStep) \<Rightarrow>
        if ihStep \<ge> InputHeight' then
          if ihStep = ih then
            (ptr_add filter' FilterStride, ih + DilationHeight', EffectiveKernelHeight - 1,
             ihStep + DilationHeight')
          else
            (filter', ih, EffectiveKernelHeight - 1, ihStep + DilationHeight')
        else
          (filter', ih, EffectiveKernelHeight, ihStep + DilationHeight'))"

fun KernelWalk ::
  "nat \<Rightarrow> size_t \<Rightarrow> size_t \<Rightarrow> size_t \<Rightarrow> float_ptr \<times> size_t \<times> size_t \<times> size_t \<Rightarrow>
   float_ptr \<times> size_t \<times> size_t \<times> size_t" where
  "KernelWalk 0 InputHeight' DilationHeight' FilterStride s = s"
| "KernelWalk (Suc n) InputHeight' DilationHeight' FilterStride s =
     KernelWalk n InputHeight' DilationHeight' FilterStride
       (KernelWalkStep InputHeight' DilationHeight' FilterStride s)"

text \<open>The result is the filter pointer, \<open>ih\<close> and \<open>EffectiveKernelHeight\<close>.\<close>

definition ComputeEffectiveKernel ::
  "'a MLAS_NCHWC_WORK_BLOCK_scheme \<Rightarrow> size_t \<Rightarrow> size_t \<Rightarrow> float_ptr \<Rightarrow>
   float_ptr \<times> size_t \<times> size_t" where
  "ComputeEffectiveKernel WorkBlock row FilterStride filter0 =
     (let ih = row * StrideHeight WorkBlock - PaddingLeftY WorkBlock;
          EffectiveKernelHeight = KernelHeight WorkBlock
      in if row - OutputCountLeftPadY WorkBlock \<ge> OutputCountY WorkBlock then
           (case KernelWalk (unat (KernelHeight WorkBlock)) (InputHeight WorkBlock)
                   (DilationHeight WorkBlock) FilterStride
                   (filter0, ih, EffectiveKernelHeight, ih)
            of (filter', ih', EffectiveKernelHeight', ihStep) \<Rightarrow>
                 (filter', ih', EffectiveKernelHeight'))
         else (filter0, ih, EffectiveKernelHeight))"

section \<open>Kernel flags of the convolution executors\<close>

text \<open>
  The block that builds \<open>KernelFlags\<close> is written out three times in the source
  (lines 598 to 615, 730 to 747 and 855 to 872); the executors differ in the test for
  the last step over the input channels.  \<open>Accumulate\<close> is the value of
  \<open>ic != 0 || !ZeroMode\<close> and \<open>LastStep\<close> the value of the test.
\<close>

definition BuildKernelFlags ::
  "bool \<Rightarrow> bool \<Rightarrow> float_ptr \<Rightarrow> MLAS_ACTIVATION_KIND \<Rightarrow> unsigned" where
  "BuildKernelFlags Accumulate LastStep Bias' Kind =
     (let KernelFlags = (0 :: unsigned);
          KernelFlags = (if Accumulate then KernelFlags OR 1 else KernelFlags)
      in if LastStep then
           (let KernelFlags = (if Bias' \<noteq> nullptr then KernelFlags OR 2 else KernelFlags)
            in if Kind = MlasReluActivation then KernelFlags OR 4
               else if Kind \<noteq> MlasIdentityActivation then KernelFlags OR 8
               else KernelFlags)
         else KernelFlags)"

text \<open>\<open>MLAS_NCHWC_CONV_NCHWC_ALGORITHM::Execute\<close>: step \<open>BlockSize\<close>.\<close>

definition NchwcKernelFlags ::
  "size_t \<Rightarrow> 'a MLAS_NCHWC_CONV_WORK_BLOCK_scheme \<Rightarrow> float_ptr \<Rightarrow> size_t \<Rightarrow> unsigned" where
  "NchwcKernelFlags BlockSize WorkBlock Bias' ic =
     BuildKernelFlags (ic \<noteq> 0 \<or> \<not> ZeroMode WorkBlock)
       (ic + BlockSize = InputChannels WorkBlock) Bias'
       (ActivationKind (Activation WorkBlock))"

text \<open>\<open>MLAS_NCHWC_CONV_NCHW_ALGORITHM::Execute\<close>: step 1.\<close>

definition NchwKernelFlags ::
  "'a MLAS_NCHWC_CONV_WORK_BLOCK_scheme \<Rightarrow> float_ptr \<Rightarrow> size_t \<Rightarrow> unsigned" where
  "NchwKernelFlags WorkBlock Bias' icc =
     BuildKernelFlags (icc \<noteq> 0 \<or> \<not> ZeroMode WorkBlock)
       (icc + 1 = InputChannels WorkBlock) Bias'
       (ActivationKind (Activation WorkBlock))"

text \<open>
  \<open>MLAS_NCHWC_CONV_POINTWISE_ALGORITHM::Execute\<close>: step \<open>InputChannelBatch\<close>, the
  smaller of the channels left and \<open>MaximumInputChannelBatch\<close>.
\<close>

definition MaximumInputChannelBatch :: size_t where
  "MaximumInputChannelBatch = 128"

definition InputChannelBatch :: "'a MLAS_NCHWC_CONV_WORK_BLOCK_scheme \<Rightarrow> size_t \<Rightarrow> size_t" where
  "InputChannelBatch WorkBlock ic = min (InputChannels WorkBlock - ic) MaximumInputChannelBatch"

definition PointwiseKernelFlags ::
  "'a MLAS_NCHWC_CONV_WORK_BLOCK_scheme \<Rightarrow> float_ptr \<Rightarrow> size_t \<Rightarrow> unsigned" where
  "PointwiseKernelFlags WorkBlock Bias' ic =
     BuildKernelFlags (ic \<noteq> 0 \<or> \<not> ZeroMode WorkBlock)
       (ic + InputChannelBatch WorkBlock ic = InputChannels WorkBlock) Bias'
       (ActivationKind (Activation WorkBlock))"

section \<open>Grouped convolution: the state of a worker\<close>

text \<open>
  The fields of \<open>MLAS_NCHWC_GROUPED_CONV_ALGORITHM\<close> (with those it inherits from
  \<open>MLAS_NCHWC_CONV_ALGORITHM\<close>) that a worker changes while it runs, its work block
  and the constant \<open>FilterSetCount\<close>.  The other inherited fields are the captured
  constants above.
\<close>

record MLAS_NCHWC_GROUPED_CONV_ALGORITHM =
  WorkBlock :: MLAS_NCHWC_CONV_WORK_BLOCK
  FilterSetCount :: size_t
  Input :: float_ptr
  Filter :: float_ptr
  Bias :: float_ptr
  Output :: float_ptr
  ph :: size_t
  FilterSet :: size_t
  Group :: size_t
  WorkRemaining :: size_t
  FilterCount :: size_t

definition FilterSetSize :: size_t where
  "FilterSetSize = 4"

text \<open>\<open>ComputeFilterCount\<close> (lines 443 to 446).\<close>

definition ComputeFilterCount ::
  "size_t \<Rightarrow> MLAS_NCHWC_GROUPED_CONV_ALGORITHM \<Rightarrow> MLAS_NCHWC_GROUPED_CONV_ALGORITHM option" where
  "ComputeFilterCount BlockSize this =
     do {
       q \<leftarrow> udiv (OutputChannels (WorkBlock this)) BlockSize;
       Some (this\<lparr>FilterCount := min FilterSetSize (q - FilterSet this * FilterSetSize)\<rparr>)
     }"

text \<open>
  The constructors (lines 334 to 346 and 437 to 441): the buffer pointers are copied from
  the work block and \<open>FilterSetCount\<close> is computed; the position fields are set by
  \<open>PrepareWork\<close> before they are read and start as 0 here.
\<close>

definition NewGroupedConvAlgorithm ::
  "size_t \<Rightarrow> MLAS_NCHWC_CONV_WORK_BLOCK \<Rightarrow> MLAS_NCHWC_GROUPED_CONV_ALGORITHM option" where
  "NewGroupedConvAlgorithm BlockSize wb =
     do {
       fsc \<leftarrow> udiv (OutputChannels wb + (BlockSize * FilterSetSize) - 1)
                (BlockSize * FilterSetSize);
       Some \<lparr>WorkBlock = wb, FilterSetCount = fsc,
             Input = MLAS_NCHWC_CONV_WORK_BLOCK.Input wb,
             Filter = MLAS_NCHWC_CONV_WORK_BLOCK.Filter wb,
             Bias = MLAS_NCHWC_CONV_WORK_BLOCK.Bias wb,
             Output = MLAS_NCHWC_CONV_WORK_BLOCK.Output wb,
             ph = 0, FilterSet = 0, Group = 0, WorkRemaining = 0, FilterCount = 0\<rparr>
     }"

text \<open>\<open>PrepareWork\<close> (lines 448 to 492).\<close>

definition PrepareWork ::
  "size_t \<Rightarrow> MLAS_NCHWC_GROUPED_CONV_ALGORITHM \<Rightarrow> int32_t \<Rightarrow>
   MLAS_NCHWC_GROUPED_CONV_ALGORITHM option" where
  "PrepareWork BlockSize this Index =
     do {
       let wb = WorkBlock this;
       let TotalWork = BatchCount wb * GroupCount wb * FilterSetCount this * OutputHeight wb;
       (WorkIndex, Remaining) \<leftarrow> PartitionWork Index wb TotalWork;
       row \<leftarrow> umod WorkIndex (OutputHeight wb);
       BatchGroupFilterSet \<leftarrow> udiv WorkIndex (OutputHeight wb);
       fs \<leftarrow> umod BatchGroupFilterSet (FilterSetCount this);
       BatchGroup \<leftarrow> udiv BatchGroupFilterSet (FilterSetCount this);
       grp \<leftarrow> umod BatchGroup (GroupCount wb);
       let this = this\<lparr>WorkRemaining := Remaining, ph := row, FilterSet := fs, Group := grp\<rparr>;
       let this = this\<lparr>Input :=
             ptr_add (Input this) (BatchGroup * InputChannels wb * InputSize wb)\<rparr>;
       let this = this\<lparr>Output :=
             ptr_add (Output this) (BatchGroup * OutputChannels wb * OutputSize wb)\<rparr>;
       let this = this\<lparr>Output :=
             ptr_add (Output this) (BlockSize * FilterSet this * FilterSetSize * OutputSize wb)\<rparr>;
       let this = this\<lparr>Filter :=
             ptr_add (Filter this)
               (Group this * OutputChannels wb * InputChannels wb * KernelSize wb)\<rparr>;
       let this = this\<lparr>Filter :=
             ptr_add (Filter this)
               (BlockSize * FilterSet this * FilterSetSize * InputChannels wb * KernelSize wb)\<rparr>;
       let this =
         (if Bias this \<noteq> nullptr then
            (let this = this\<lparr>Bias := ptr_add (Bias this) (Group this * OutputChannels wb)\<rparr>
             in this\<lparr>Bias := ptr_add (Bias this) (BlockSize * FilterSet this * FilterSetSize)\<rparr>)
          else this);
       ComputeFilterCount BlockSize this
     }"

text \<open>\<open>CompleteWork\<close> (lines 494 to 541).\<close>

definition CompleteWork ::
  "size_t \<Rightarrow> MLAS_NCHWC_GROUPED_CONV_ALGORITHM \<Rightarrow> size_t \<Rightarrow>
   MLAS_NCHWC_GROUPED_CONV_ALGORITHM option" where
  "CompleteWork BlockSize this WorkThisIteration =
     (let this = this\<lparr>WorkRemaining := WorkRemaining this - WorkThisIteration\<rparr>;
          this = this\<lparr>ph := ph this + WorkThisIteration\<rparr>
      in if ph this = OutputHeight (WorkBlock this) then
           do {
             let BlockedFilterCount = BlockSize * FilterCount this;
             let this = this\<lparr>Output :=
                   ptr_add (Output this) (BlockedFilterCount * OutputSize (WorkBlock this))\<rparr>;
             let this = this\<lparr>Filter :=
                   ptr_add (Filter this)
                     (BlockedFilterCount * InputChannels (WorkBlock this)
                        * KernelSize (WorkBlock this))\<rparr>;
             let this = (if Bias this \<noteq> nullptr
                         then this\<lparr>Bias := ptr_add (Bias this) BlockedFilterCount\<rparr>
                         else this);
             let this = this\<lparr>FilterSet := FilterSet this + 1\<rparr>;
             let this =
               (if FilterSet this = FilterSetCount this then
                  (let this = this\<lparr>Input :=
                         ptr_add (Input this)
                           (InputChannels (WorkBlock this) * InputSize (WorkBlock this))\<rparr>;
                       this = this\<lparr>Group := Group this + 1\<rparr>;
                       this =
                         (if Group this = GroupCount (WorkBlock this) then
                            this\<lparr>Filter := MLAS_NCHWC_CONV_WORK_BLOCK.Filter (WorkBlock this),
                                 Bias := MLAS_NCHWC_CONV_WORK_BLOCK.Bias (WorkBlock this),
                                 Group := 0\<rparr>
                          else this)
                   in this\<lparr>FilterSet := 0\<rparr>)
                else this);
             this \<leftarrow> ComputeFilterCount BlockSize this;
             Some (this\<lparr>ph := 0\<rparr>)
           }
         else Some this)"

section \<open>Convolution entry point and algorithm selection\<close>

text \<open>The four instances of \<open>MlasNchwcThreaded\<close> that the entry point can schedule.\<close>

datatype ThreadedRoutine =
    Threaded_CONV_POINTWISE
  | Threaded_CONV_NCHWC
  | Threaded_CONV_DEPTHWISE
  | Threaded_CONV_NCHW

text \<open>The selection (lines 1246 to 1260), on the work block after the channel division.\<close>

definition SelectThreadedRoutine ::
  "size_t \<Rightarrow> 'a MLAS_NCHWC_WORK_BLOCK_scheme \<Rightarrow> ThreadedRoutine" where
  "SelectThreadedRoutine BlockSize wb =
     (if InputChannels wb \<ge> BlockSize then
        if KernelShape wb ! 0 = 1 \<and> KernelShape wb ! 1 = 1 \<and>
           Padding wb ! 0 = 0 \<and> Padding wb ! 1 = 0 \<and>
           Padding wb ! 2 = 0 \<and> Padding wb ! 3 = 0
        then Threaded_CONV_POINTWISE
        else Threaded_CONV_NCHWC
      else if InputChannels wb = 1 \<and> OutputChannels wb = 1 then Threaded_CONV_DEPTHWISE
      else Threaded_CONV_NCHW)"

text \<open>
  \<open>MlasNchwcConv\<close> (lines 1146 to 1269) up to the hand-over to the thread pool: the
  result is the routine and the work block that \<open>MlasExecuteThreaded\<close> receives.
  \<open>BlockSize\<close> is the value of \<open>MlasNchwcGetBlockSize()\<close>, \<open>MaximumThreadCount\<close>
  that of \<open>MlasGetMaximumThreadCount(ThreadPool)\<close>, and \<open>wb0\<close> the contents of the
  work block on the stack before it is filled in.
\<close>

definition MlasNchwcConv ::
  "size_t \<Rightarrow> int32_t \<Rightarrow> MLAS_NCHWC_CONV_WORK_BLOCK \<Rightarrow> size_t \<Rightarrow> size_t list \<Rightarrow>
   size_t list option \<Rightarrow> size_t list option \<Rightarrow> size_t list option \<Rightarrow> size_t list option \<Rightarrow>
   size_t list \<Rightarrow> size_t \<Rightarrow> float_ptr \<Rightarrow> float_ptr \<Rightarrow> float_ptr \<Rightarrow> float_ptr \<Rightarrow>
   MLAS_ACTIVATION \<Rightarrow> bool \<Rightarrow> (ThreadedRoutine \<times> MLAS_NCHWC_CONV_WORK_BLOCK) option" where
  "MlasNchwcConv BlockSize MaximumThreadCount wb0 Dimensions InputShape' KernelShape'
     DilationShape' Padding' StrideShape' OutputShape' GroupCount' Input' Filter' Bias' Output'
     Activation' ZeroMode' =
     do {
       let wb1 = wb0\<lparr>MLAS_NCHWC_CONV_WORK_BLOCK.Input := Input',
                     MLAS_NCHWC_CONV_WORK_BLOCK.Output := Output',
                     GroupCount := GroupCount',
                     MLAS_NCHWC_CONV_WORK_BLOCK.Filter := Filter',
                     MLAS_NCHWC_CONV_WORK_BLOCK.Bias := Bias',
                     Activation := Activation',
                     ZeroMode := ZeroMode'\<rparr>;
       wb2 \<leftarrow> MlasPrepareNchwcWorkBlock wb1 Dimensions InputShape' KernelShape' DilationShape'
                Padding' StrideShape' OutputShape';
       ci \<leftarrow> udiv (InputChannels wb2) GroupCount';
       let wb3 = wb2\<lparr>InputChannels := ci\<rparr>;
       co \<leftarrow> udiv (OutputChannels wb3) GroupCount';
       let wb4 = wb3\<lparr>OutputChannels := co\<rparr>;
       let routine = SelectThreadedRoutine BlockSize wb4;
       Some (routine, wb4\<lparr>tids := MaximumThreadCount\<rparr>)
     }"

section \<open>Pooling executor\<close>

text \<open>
  The arguments of one call of the pooling microkernel, in the order of the call (lines
  1120 to 1125), and the kind that selected the microkernel from
  \<open>MlasPlatform.PoolFloatKernel\<close>.
\<close>

record PoolKernelCall =
  arg_Kernel :: MLAS_POOLING_KIND
  arg_Input :: float_ptr
  arg_Output :: float_ptr
  arg_StrideWidthBytes :: size_t
  arg_DilationWidthBytes :: size_t
  arg_InputStrideBytes :: size_t
  arg_KernelSize :: size_t
  arg_EffectiveKernelHeight :: size_t
  arg_KernelWidth :: size_t
  arg_InputBase :: float_ptr
  arg_InputWidthBytes :: size_t
  arg_DilatedInputWidthBytes :: size_t
  arg_OutputCountLeftPadX :: size_t
  arg_OutputCountX :: size_t
  arg_OutputCountRightPadX :: size_t

text \<open>
  The walk over the kernel rows of the pooling executor (lines 1094 to 1114): as in
  \<open>ComputeEffectiveKernel\<close>, without a filter.  The state is \<open>ih\<close>,
  \<open>EffectiveKernelHeight\<close> and \<open>ihStep\<close>.
\<close>

definition PoolWalkStep ::
  "size_t \<Rightarrow> size_t \<Rightarrow> size_t \<times> size_t \<times> size_t \<Rightarrow> size_t \<times> size_t \<times> size_t" where
  "PoolWalkStep InputHeight' DilationHeight' s =
     (case s of (ih, EffectiveKernelHeight, ihStep) \<Rightarrow>
        if ihStep \<ge> InputHeight' then
          if ihStep = ih then
            (ih + DilationHeight', EffectiveKernelHeight - 1, ihStep + DilationHeight')
          else
            (ih, EffectiveKernelHeight - 1, ihStep + DilationHeight')
        else
          (ih, EffectiveKernelHeight, ihStep + DilationHeight'))"

fun PoolWalk ::
  "nat \<Rightarrow> size_t \<Rightarrow> size_t \<Rightarrow> size_t \<times> size_t \<times> size_t \<Rightarrow> size_t \<times> size_t \<times> size_t" where
  "PoolWalk 0 InputHeight' DilationHeight' s = s"
| "PoolWalk (Suc n) InputHeight' DilationHeight' s =
     PoolWalk n InputHeight' DilationHeight' (PoolWalkStep InputHeight' DilationHeight' s)"

text \<open>The pair \<open>(ih, EffectiveKernelHeight)\<close> of an output row.\<close>

definition PoolEffectiveKernel ::
  "'a MLAS_NCHWC_WORK_BLOCK_scheme \<Rightarrow> size_t \<Rightarrow> size_t \<times> size_t" where
  "PoolEffectiveKernel wb row =
     (let ih = row * StrideHeight wb - PaddingLeftY wb;
          EffectiveKernelHeight = KernelHeight wb
      in if row - OutputCountLeftPadY wb \<ge> OutputCountY wb then
           (case PoolWalk (unat (KernelHeight wb)) (InputHeight wb) (DilationHeight wb)
                   (ih, EffectiveKernelHeight, ih)
            of (ih', EffectiveKernelHeight', ihStep) \<Rightarrow> (ih', EffectiveKernelHeight'))
         else (ih, EffectiveKernelHeight))"

text \<open>The call of the microkernel for one output row.\<close>

definition PoolCall ::
  "size_t \<Rightarrow> MLAS_NCHWC_POOL_WORK_BLOCK \<Rightarrow> size_t \<Rightarrow> float_ptr \<Rightarrow> float_ptr \<Rightarrow>
   PoolKernelCall" where
  "PoolCall BlockSize wb row Input' Output' =
     (let StrideWidthBytes = BlockSize * StrideWidth wb * sizeof_float;
          DilationWidthBytes = BlockSize * DilationWidth wb * sizeof_float;
          InputWidthBytes = BlockSize * InputWidth wb * sizeof_float;
          DilatedInputWidthBytes = BlockSize * DilationHeight wb * InputWidth wb * sizeof_float;
          InputStrideBytes = DilatedInputWidthBytes - KernelWidth wb * DilationWidthBytes
      in case PoolEffectiveKernel wb row of (ih, EffectiveKernelHeight) \<Rightarrow>
        \<lparr>arg_Kernel = PoolingKind wb,
         arg_Input = ptr_add Input' (BlockSize * (ih * InputWidth wb - PaddingLeftX wb)),
         arg_Output = Output',
         arg_StrideWidthBytes = StrideWidthBytes,
         arg_DilationWidthBytes = DilationWidthBytes,
         arg_InputStrideBytes = InputStrideBytes,
         arg_KernelSize = KernelSize wb,
         arg_EffectiveKernelHeight = EffectiveKernelHeight,
         arg_KernelWidth = KernelWidth wb,
         arg_InputBase = ptr_add Input' (BlockSize * (ih * InputWidth wb)),
         arg_InputWidthBytes = InputWidthBytes,
         arg_DilatedInputWidthBytes = DilatedInputWidthBytes,
         arg_OutputCountLeftPadX = OutputCountLeftPadX wb,
         arg_OutputCountX = OutputCountX wb,
         arg_OutputCountRightPadX = OutputCountRightPadX wb\<rparr>)"

text \<open>
  The loop \<open>while (WorkRemaining > 0)\<close> (lines 1086 to 1142) on the state
  \<open>(ph, Input, Output, WorkRemaining)\<close>; the result is the list of the microkernel
  calls in the order in which they are made.
\<close>

function PoolLoop ::
  "size_t \<Rightarrow> MLAS_NCHWC_POOL_WORK_BLOCK \<Rightarrow> size_t \<times> float_ptr \<times> float_ptr \<times> size_t \<Rightarrow>
   PoolKernelCall list" where
  "PoolLoop BlockSize wb (row, Input', Output', Remaining) =
     (if Remaining > 0 then
        PoolCall BlockSize wb row Input' Output' #
        PoolLoop BlockSize wb
          (if row + 1 = OutputHeight wb
           then (0, ptr_add Input' (BlockSize * InputSize wb),
                 ptr_add Output' (BlockSize * OutputWidth wb), Remaining - 1)
           else (row + 1, Input', ptr_add Output' (BlockSize * OutputWidth wb), Remaining - 1))
      else [])"
  by pat_completeness auto
termination
  by (relation "measure (\<lambda>(b, w, r, i, out, n). unat n)")
     (auto simp: unat_minus_one unat_gt_0 word_greater_zero_iff)

text \<open>\<open>MLAS_NCHWC_POOL_ALGORITHM::Execute\<close> (lines 1058 to 1143).\<close>

definition PoolExecute ::
  "size_t \<Rightarrow> MLAS_NCHWC_POOL_WORK_BLOCK \<Rightarrow> int32_t \<Rightarrow> PoolKernelCall list option" where
  "PoolExecute BlockSize wb Index =
     do {
       blocks \<leftarrow> udiv (BatchCount wb * InputChannels wb + BlockSize - 1) BlockSize;
       let TotalWork = blocks * OutputHeight wb;
       (WorkIndex, Remaining) \<leftarrow> PartitionWork Index wb TotalWork;
       row \<leftarrow> umod WorkIndex (OutputHeight wb);
       BatchChannel \<leftarrow> udiv WorkIndex (OutputHeight wb);
       let Input' = ptr_add (MLAS_NCHWC_POOL_WORK_BLOCK.Input wb)
                      (BatchChannel * BlockSize * InputSize wb);
       let Output' = ptr_add (MLAS_NCHWC_POOL_WORK_BLOCK.Output wb)
                       (WorkIndex * BlockSize * OutputWidth wb);
       Some (PoolLoop BlockSize wb (row, Input', Output', Remaining))
     }"

text \<open>
  \<open>MlasNchwcPool\<close> (lines 1271 to 1348) up to the hand-over to the thread pool: the
  result is the work block that the workers receive.
\<close>

definition MlasNchwcPool ::
  "int32_t \<Rightarrow> MLAS_NCHWC_POOL_WORK_BLOCK \<Rightarrow> MLAS_POOLING_KIND \<Rightarrow> size_t \<Rightarrow> size_t list \<Rightarrow>
   size_t list option \<Rightarrow> size_t list option \<Rightarrow> size_t list option \<Rightarrow> size_t list option \<Rightarrow>
   size_t list \<Rightarrow> float_ptr \<Rightarrow> float_ptr \<Rightarrow> MLAS_NCHWC_POOL_WORK_BLOCK option" where
  "MlasNchwcPool MaximumThreadCount wb0 PoolingKind' Dimensions InputShape' KernelShape'
     DilationShape' Padding' StrideShape' OutputShape' Input' Output' =
     do {
       let wb1 = wb0\<lparr>MLAS_NCHWC_POOL_WORK_BLOCK.Input := Input',
                     MLAS_NCHWC_POOL_WORK_BLOCK.Output := Output',
                     PoolingKind := PoolingKind'\<rparr>;
       wb2 \<leftarrow> MlasPrepareNchwcWorkBlock wb1 Dimensions InputShape' KernelShape' DilationShape'
                Padding' StrideShape' OutputShape';
       Some (wb2\<lparr>tids := MaximumThreadCount\<rparr>)
     }"

section \<open>Work of a thread as a set, and sample work blocks\<close>

text \<open>
  The work items that \<open>PartitionWork\<close> gives to thread \<open>i\<close>, as the set of the
  indices from \<open>WorkIndex\<close> up to \<open>WorkIndex + WorkRemaining\<close>.
\<close>

definition ThreadRange :: "'a MLAS_NCHWC_WORK_BLOCK_scheme \<Rightarrow> size_t \<Rightarrow> nat \<Rightarrow> nat set" where
  "ThreadRange wb TotalWork i =
     (case PartitionWork (of_nat i) wb TotalWork of
        Some (WorkIndex, Remaining) \<Rightarrow> {unat WorkIndex ..< unat WorkIndex + unat Remaining}
      | None \<Rightarrow> {})"

text \<open>
  A work block on the stack before it is filled in (all fields zero), used as the
  starting point of the sample dispatches below.
\<close>

definition blank_work_block :: MLAS_NCHWC_WORK_BLOCK where
  "blank_work_block =
     \<lparr>tids = 0, BatchCount = 0, InputChannels = 0, InputShape = [0, 0, 0], InputSize = 0,
      OutputChannels = 0, OutputShape = [0, 0, 0], OutputSize = 0, KernelShape = [0, 0, 0],
      DilationShape = [0, 0, 0], Padding = [0, 0, 0, 0, 0, 0], StrideShape = [0, 0, 0],
      OutputCountLeftPad = [0, 0, 0], OutputCount = [0, 0, 0],
      OutputCountRightPad = [0, 0, 0]\<rparr>"

definition blank_conv_work_block :: MLAS_NCHWC_CONV_WORK_BLOCK where
  "blank_conv_work_block =
     MLAS_NCHWC_WORK_BLOCK.extend blank_work_block
       (MLAS_NCHWC_CONV_WORK_BLOCK.fields 0 0 0 \<lparr>ActivationKind = MlasIdentityActivation\<rparr>
          0 0 False)"

definition blank_pool_work_block :: MLAS_NCHWC_POOL_WORK_BLOCK where
  "blank_pool_work_block =
     MLAS_NCHWC_WORK_BLOCK.extend blank_work_block
       (MLAS_NCHWC_POOL_WORK_BLOCK.fields 0 0 MlasMaximumPooling)"

text \<open>
  Sample dispatches.  \<open>sample_conv_work_block\<close> is the work block of a grouped
  convolution with two groups of 8 channels, a 7 by 7 input, a 5 by 5 kernel, stride 2
  and padding 3 on every side (output 5 by 5); \<open>sample_pool_work_block\<close> that of an
  average pooling of a 4 by 4 input with a 3 by 3 kernel, stride 1 and padding 1;
  \<open>sample_conv_algorithm\<close> is the state of the only worker of the convolution after
  \<open>PrepareWork\<close> and \<open>sample_conv_algorithm_next\<close> its state after the first
  \<open>CompleteWork\<close>.  Each is shown below to be what the code computes.
\<close>

definition sample_conv_work_block :: MLAS_NCHWC_CONV_WORK_BLOCK where
  "sample_conv_work_block =
     \<lparr>tids = 1, BatchCount = 1, InputChannels = 8, InputShape = [7, 7, 0], InputSize = 49,
      OutputChannels = 8, OutputShape = [5, 5, 0], OutputSize = 25, KernelShape = [5, 5, 0],
      DilationShape = [1, 1, 0], Padding = [3, 3, 3, 3, 0, 0], StrideShape = [2, 2, 0],
      OutputCountLeftPad = [1, 1, 0], OutputCount = [2, 2, 0], OutputCountRightPad = [2, 2, 0],
      MLAS_NCHWC_CONV_WORK_BLOCK.Input = 4096, MLAS_NCHWC_CONV_WORK_BLOCK.Filter = 8192,
      MLAS_NCHWC_CONV_WORK_BLOCK.Bias = 0,
      Activation = \<lparr>ActivationKind = MlasReluActivation\<rparr>,
      MLAS_NCHWC_CONV_WORK_BLOCK.Output = 16384, GroupCount = 2, ZeroMode = True\<rparr>"

definition sample_pool_work_block :: MLAS_NCHWC_POOL_WORK_BLOCK where
  "sample_pool_work_block =
     \<lparr>tids = 1, BatchCount = 1, InputChannels = 8, InputShape = [4, 4, 0], InputSize = 16,
      OutputChannels = 8, OutputShape = [4, 4, 0], OutputSize = 16, KernelShape = [3, 3, 0],
      DilationShape = [1, 1, 0], Padding = [1, 1, 1, 1, 0, 0], StrideShape = [1, 1, 0],
      OutputCountLeftPad = [1, 1, 0], OutputCount = [2, 2, 0], OutputCountRightPad = [1, 1, 0],
      MLAS_NCHWC_POOL_WORK_BLOCK.Input = 4096, MLAS_NCHWC_POOL_WORK_BLOCK.Output = 16384,
      PoolingKind = MlasAveragePoolingExcludePad\<rparr>"

definition sample_conv_algorithm :: MLAS_NCHWC_GROUPED_CONV_ALGORITHM where
  "sample_conv_algorithm =
     \<lparr>WorkBlock = sample_conv_work_block, FilterSetCount = 1, Input = 4096, Filter = 8192,
      Bias = 0, Output = 16384, ph = 0, FilterSet = 0, Group = 0, WorkRemaining = 10,
      FilterCount = 1\<rparr>"

definition sample_conv_algorithm_next :: MLAS_NCHWC_GROUPED_CONV_ALGORITHM where
  "sample_conv_algorithm_next =
     \<lparr>WorkBlock = sample_conv_work_block, FilterSetCount = 1, Input = 5664, Filter = 14592,
      Bias = 0, Output = 17184, ph = 0, FilterSet = 0, Group = 1, WorkRemaining = 5,
      FilterCount = 1\<rparr>"

text \<open>
  \<open>sample_trim_work_block\<close> is the work block of a convolution of a 2 by 2 input
  with a 3 by 3 kernel, stride 1, padding 1 before and 3 after (output 4 by 4).
\<close>

definition sample_trim_work_block :: MLAS_NCHWC_CONV_WORK_BLOCK where
  "sample_trim_work_block =
     \<lparr>tids = 1, BatchCount = 1, InputChannels = 8, InputShape = [2, 2, 0], InputSize = 4,
      OutputChannels = 8, OutputShape = [4, 4, 0], OutputSize = 16, KernelShape = [3, 3, 0],
      DilationShape = [1, 1, 0], Padding = [1, 1, 3, 3, 0, 0], StrideShape = [1, 1, 0],
      OutputCountLeftPad = [1, 1, 0], OutputCount = [0, 0, 0], OutputCountRightPad = [3, 3, 0],
      MLAS_NCHWC_CONV_WORK_BLOCK.Input = 4096, MLAS_NCHWC_CONV_WORK_BLOCK.Filter = 8192,
      MLAS_NCHWC_CONV_WORK_BLOCK.Bias = 0,
      Activation = \<lparr>ActivationKind = MlasIdentityActivation\<rparr>,
      MLAS_NCHWC_CONV_WORK_BLOCK.Output = 16384, GroupCount = 1, ZeroMode = True\<rparr>"

text \<open>
  \<open>sample_fixup_work_block\<close> is what the preprocessor makes of the blank work block
  for a 5 by 5 input, a 3 by 3 kernel, stride 2 and padding 1 on every side (output 3 by
  3): the left-pad count is first 0, so that the fix-up runs.
\<close>

definition sample_fixup_work_block :: MLAS_NCHWC_WORK_BLOCK where
  "sample_fixup_work_block =
     \<lparr>tids = 0, BatchCount = 1, InputChannels = 8, InputShape = [5, 5, 0], InputSize = 25,
      OutputChannels = 8, OutputShape = [3, 3, 0], OutputSize = 9, KernelShape = [3, 3, 0],
      DilationShape = [1, 1, 0], Padding = [1, 1, 1, 1, 0, 0], StrideShape = [2, 2, 0],
      OutputCountLeftPad = [1, 1, 0], OutputCount = [1, 1, 0],
      OutputCountRightPad = [1, 1, 0]\<rparr>"

section \<open>The formulas of the specification\<close>

text \<open>
  The with-left-pad count as the specification words it: the floor quotient plus one,
  not below 0, clamped to the output length (over the integers).
\<close>

definition Withpad_spec :: "int \<Rightarrow> int \<Rightarrow> int \<Rightarrow> int \<Rightarrow> int \<Rightarrow> int" where
  "Withpad_spec IH PL Span SH OH = min OH (max 0 ((IH + PL - Span) div SH + 1))"

text \<open>
  The work partition as the specification words it, for \<open>T\<close> threads and \<open>W\<close>
  items, with \<open>q = W div T\<close> and \<open>r = W mod T\<close>: thread \<open>i < r\<close> starts at
  \<open>(q + 1) * i\<close> and has \<open>q + 1\<close> items, the others start at
  \<open>(q + 1) * r + q * (i - r)\<close> and have \<open>q\<close> items.
\<close>

definition PartitionStart_spec :: "nat \<Rightarrow> nat \<Rightarrow> nat \<Rightarrow> nat" where
  "PartitionStart_spec T W i =
     (let q = W div T; r = W mod T
      in if i < r then (q + 1) * i else (q + 1) * r + q * (i - r))"

definition PartitionCount_spec :: "nat \<Rightarrow> nat \<Rightarrow> nat \<Rightarrow> nat" where
  "PartitionCount_spec T W i =
     (let q = W div T; r = W mod T in if i < r then q + 1 else q)"

text \<open>
  The closed-form trimming of the specification, over the integers.  The quotient is
  rounded up; \<open>ih_trim_top\<close> is \<open>max(0, ceil((PL - ph * SH) / DH))\<close>.  The
  specification names \<open>ih_trim_bot\<close> without defining it: it is taken to be the
  number of kernel rows \<open>kh < KH\<close> whose input row \<open>ph * SH - PL + kh * DH\<close> is at
  or beyond \<open>IH\<close>, the rows that the walk trims at the bottom.  The result is the
  first input row, the effective kernel height and the number of filter rows by which
  the filter pointer is advanced.
\<close>

definition ceil_div :: "int \<Rightarrow> int \<Rightarrow> int" where
  "ceil_div a b = - ((- a) div b)"

definition ih_trim_top_spec :: "int \<Rightarrow> int \<Rightarrow> int \<Rightarrow> int \<Rightarrow> int" where
  "ih_trim_top_spec row SH PL DH = max 0 (ceil_div (PL - row * SH) DH)"

definition ih_trim_bot_spec :: "int \<Rightarrow> int \<Rightarrow> int \<Rightarrow> int \<Rightarrow> int \<Rightarrow> int \<Rightarrow> int" where
  "ih_trim_bot_spec row SH PL DH KH IH =
     int (length (filter (\<lambda>kh. IH \<le> row * SH - PL + int kh * DH) [0 ..< nat KH]))"

definition ClosedFormKernel_spec ::
  "int \<Rightarrow> int \<Rightarrow> int \<Rightarrow> int \<Rightarrow> int \<Rightarrow> int \<Rightarrow> int \<times> int \<times> int" where
  "ClosedFormKernel_spec row SH PL DH KH IH =
     (let trim_top = ih_trim_top_spec row SH PL DH;
          trim_bot = ih_trim_bot_spec row SH PL DH KH IH
      in (row * SH - PL + trim_top * DH, KH - trim_top - trim_bot, trim_top))"

section \<open>The sample dispatches are what the code computes\<close>

lemma sample_conv_dispatch:
  "MlasNchwcConv 8 1 blank_conv_work_block 2 [1, 16, 7, 7] (Some [5, 5]) (Some [1, 1])
     (Some [3, 3, 3, 3]) (Some [2, 2]) [1, 16, 5, 5] 2 4096 8192 0 16384
     \<lparr>ActivationKind = MlasReluActivation\<rparr> True
   = Some (Threaded_CONV_NCHWC, sample_conv_work_block)"
  by code_simp

lemma sample_pool_dispatch:
  "MlasNchwcPool 1 blank_pool_work_block MlasAveragePoolingExcludePad 2 [1, 8, 4, 4]
     (Some [3, 3]) (Some [1, 1]) (Some [1, 1, 1, 1]) (Some [1, 1]) [1, 8, 4, 4] 4096 16384
   = Some sample_pool_work_block"
  by code_simp

lemma sample_conv_complete:
  "CompleteWork 8 sample_conv_algorithm 5 = Some sample_conv_algorithm_next"
  by code_simp

lemma sample_conv_prepare:
  "do { a \<leftarrow> NewGroupedConvAlgorithm 8 sample_conv_work_block; PrepareWork 8 a 0 }
     = Some sample_conv_algorithm"
  by code_simp

lemma sample_trim_dispatch:
  "MlasNchwcConv 8 1 blank_conv_work_block 2 [1, 8, 2, 2] (Some [3, 3]) (Some [1, 1])
     (Some [1, 1, 3, 3]) (Some [1, 1]) [1, 8, 4, 4] 1 4096 8192 0 16384
     \<lparr>ActivationKind = MlasIdentityActivation\<rparr> True
   = Some (Threaded_CONV_NCHWC, sample_trim_work_block)"
  by code_simp

section \<open>Properties of the shape preprocessor\<close>

subsection \<open>From words to natural numbers\<close>

lemma unat_Span:
  assumes "KH \<noteq> 0" "unat DH * (unat KH - 1) + 1 < 2 ^ 64"
  shows "unat (SpanValue DH KH) = unat DH * (unat KH - 1) + 1"
proof -
  have k: "unat (KH - 1) = unat KH - 1" using assms(1) by (simp add: unat_minus_one)
  have m: "unat (DH * (KH - 1)) = unat DH * (unat KH - 1)"
    using assms(2) k by (simp add: unat_mult_lem [THEN iffD1])
  have "unat (DH * (KH - 1) + 1) = unat (DH * (KH - 1)) + unat (1::64 word)"
    using assms(2) m by (simp add: unat_add_lem [THEN iffD1])
  then show ?thesis by (simp add: SpanValue_def m)
qed

lemma unat_div_succ:
  fixes a s :: size_t
  assumes "unat a < 2 ^ 64 - 1"
  shows "unat (a div s + 1) = unat a div unat s + 1"
proof -
  have "unat a div unat s \<le> unat a" by (rule div_le_dividend)
  with assms have "unat a div unat s < 2 ^ 64 - 1" by (rule le_less_trans [rotated])
  then have "unat (a div s) + unat (1::64 word) < 2 ^ 64" by (simp add: unat_div)
  then have "unat (a div s + 1) = unat (a div s) + unat (1::64 word)"
    by (simp add: unat_add_lem [THEN iffD1])
  then show ?thesis by (simp add: unat_div)
qed

lemma unat_InteriorOutputCount:
  assumes "SH \<noteq> 0" "Span \<noteq> 0"
  shows "\<exists>c. InteriorOutputCount IH Span SH = Some c \<and>
     unat c = (if unat Span \<le> unat IH then (unat IH - unat Span) div unat SH + 1 else 0)"
proof (cases "Span \<le> IH")
  case True
  have s: "0 < unat Span" using assms(2) by (simp add: unat_gt_0)
  have "unat (IH - Span) = unat IH - unat Span" using True by (simp add: unat_sub)
  moreover have "unat IH < 2 ^ 64" using unsigned_less [of IH] by simp
  ultimately have "unat (IH - Span) < 2 ^ 64 - 1" using s True by (simp add: word_le_nat_alt)
  then have "unat ((IH - Span) div SH + 1) = unat (IH - Span) div unat SH + 1"
    by (rule unat_div_succ)
  then show ?thesis using True assms(1)
    by (simp add: InteriorOutputCount_def udiv_def word_le_nat_alt unat_sub)
next
  case False
  then show ?thesis by (simp add: InteriorOutputCount_def word_le_nat_alt)
qed

lemma unat_OutputCountWithLeftPad:
  assumes "SH \<noteq> 0" "Span \<noteq> 0" "unat IH + unat PL < 2 ^ 64"
  shows "\<exists>w. OutputCountWithLeftPad IH PL Span SH OH = Some w \<and>
     unat w = (if unat Span \<le> unat IH + unat PL
               then (unat IH + unat PL - unat Span) div unat SH + 1 else unat OH)"
proof -
  have a: "unat (IH + PL) = unat IH + unat PL"
    using assms(3) by (simp add: unat_add_lem [THEN iffD1])
  show ?thesis
  proof (cases "Span \<le> IH + PL")
    case True
    have s: "0 < unat Span" using assms(2) by (simp add: unat_gt_0)
    have "unat (IH + PL - Span) = unat (IH + PL) - unat Span" using True by (simp add: unat_sub)
    moreover have "unat (IH + PL) < 2 ^ 64" using unsigned_less [of "IH + PL"] by simp
    ultimately have "unat (IH + PL - Span) < 2 ^ 64 - 1"
      using s True by (simp add: word_le_nat_alt)
    then have "unat ((IH + PL - Span) div SH + 1) = unat (IH + PL - Span) div unat SH + 1"
      by (rule unat_div_succ)
    then show ?thesis using True assms(1) a
      by (simp add: OutputCountWithLeftPad_def udiv_def word_le_nat_alt unat_sub)
  next
    case False
    then show ?thesis using a by (simp add: OutputCountWithLeftPad_def word_le_nat_alt)
  qed
qed

lemma DimensionCounts_word_sum:
  assumes "DimensionCounts IH OH KH DH PL SH = Some (L, M, R)"
  shows "L + M + R = OH"
  using assms
  by (auto simp: DimensionCounts_def LeftPadFixUp_def Let_def
           split: Option.bind_splits if_splits)

lemma WithLeftPad_nonzero:
  assumes "Span \<noteq> 0" "OH \<noteq> 0"
    and "OutputCountWithLeftPad IH PL Span SH OH = Some w"
  shows "w \<noteq> 0"
proof (cases "Span \<le> IH + PL")
  case True
  have s: "0 < unat Span" using assms(1) by (simp add: unat_gt_0)
  have "unat (IH + PL - Span) = unat (IH + PL) - unat Span" using True by (simp add: unat_sub)
  moreover have "unat (IH + PL) < 2 ^ 64" using unsigned_less [of "IH + PL"] by simp
  ultimately have "unat (IH + PL - Span) < 2 ^ 64 - 1"
    using s True by (simp add: word_le_nat_alt)
  then have "unat ((IH + PL - Span) div SH + 1) = unat (IH + PL - Span) div unat SH + 1"
    by (rule unat_div_succ)
  then have "(IH + PL - Span) div SH + 1 \<noteq> 0" by (metis Suc_eq_plus1 nat.distinct(1) unat_0)
  then show ?thesis using assms(3) True
    by (auto simp: OutputCountWithLeftPad_def udiv_def split: if_splits)
next
  case False
  then show ?thesis using assms(2,3) by (simp add: OutputCountWithLeftPad_def)
qed

text \<open>
  Claim C9.  In a dimension whose output length is at least 1, whenever the fix-up branch
  is taken (the left-pad count is 0 and the left padding is positive), the interior count
  is at least 1 at that point, so that the decrement does not wrap around and the stored
  interior count is the count minus one.  The kernel length is nonzero and the span
  \<open>DH * (KH - 1) + 1\<close> fits a \<open>size_t\<close>.
\<close>

theorem fixup_decrement_does_not_wrap:
  assumes "KH \<noteq> 0" and "unat DH * (unat KH - 1) + 1 < 2 ^ 64" and "OH \<noteq> 0"
    and "InteriorOutputCount IH (SpanValue DH KH) SH = Some Count"
    and "OutputCountWithLeftPad IH PL (SpanValue DH KH) SH OH = Some WithLeftPad"
    and "WithLeftPad - Count = 0" and "PL > 0"
  shows "1 \<le> unat Count \<and>
         unat (Count - 1) = unat Count - 1 \<and>
         DimensionCounts IH OH KH DH PL SH = Some (1, Count - 1, OH - WithLeftPad)"
proof -
  have "unat (SpanValue DH KH) = unat DH * (unat KH - 1) + 1"
    using assms(1,2) by (rule unat_Span)
  then have sp: "SpanValue DH KH \<noteq> 0" by (metis Suc_eq_plus1 nat.distinct(1) unat_0)
  have "WithLeftPad \<noteq> 0" using sp assms(3,5) by (rule WithLeftPad_nonzero)
  moreover have "WithLeftPad = Count" using assms(6) by simp
  ultimately have c: "Count \<noteq> 0" by simp
  then have c1: "1 \<le> unat Count" using unat_gt_0 [of Count] by simp
  have c2: "unat (Count - 1) = unat Count - 1" using c by (simp add: unat_minus_one)
  have "DimensionCounts IH OH KH DH PL SH = Some (1, Count - 1, OH - WithLeftPad)"
    using assms(4,5,6,7) by (simp add: DimensionCounts_def LeftPadFixUp_def)
  with c1 c2 show ?thesis by simp
qed

theorem fixup_decrement_does_not_wrap_witness:
  "1 \<le> unat (2 :: size_t) \<and> unat (2 - 1 :: size_t) = unat (2 :: size_t) - 1 \<and>
   DimensionCounts 5 3 3 1 1 2 = Some (1, 2 - 1, 3 - 2)"
  using fixup_decrement_does_not_wrap
    [where KH=3 and DH=1 and OH=3 and IH=5 and SH=2 and PL=1 and Count=2 and WithLeftPad=2]
  by (simp add: InteriorOutputCount_def OutputCountWithLeftPad_def SpanValue_def udiv_def
        word_le_nat_alt)

subsection \<open>The three counts add up to the output length\<close>

lemma counts_ordered:
  fixes IH PL PR Span SH OH :: nat
  assumes "Span \<le> IH + PL + PR" and "OH = (IH + PL + PR - Span) div SH + 1"
  shows "(if Span \<le> IH then (IH - Span) div SH + 1 else 0)
           \<le> (if Span \<le> IH + PL then (IH + PL - Span) div SH + 1 else OH)"
    and "(if Span \<le> IH + PL then (IH + PL - Span) div SH + 1 else OH) \<le> OH"
    and "1 \<le> (if Span \<le> IH + PL then (IH + PL - Span) div SH + 1 else OH)"
proof -
  have "(IH - Span) div SH \<le> (IH + PL - Span) div SH" by (rule div_le_mono) simp
  then show "(if Span \<le> IH then (IH - Span) div SH + 1 else 0)
           \<le> (if Span \<le> IH + PL then (IH + PL - Span) div SH + 1 else OH)"
    by (simp add: assms(2))
  have "(IH + PL - Span) div SH \<le> (IH + PL + PR - Span) div SH" by (rule div_le_mono) simp
  then show "(if Span \<le> IH + PL then (IH + PL - Span) div SH + 1 else OH) \<le> OH"
    by (simp add: assms(2))
  show "1 \<le> (if Span \<le> IH + PL then (IH + PL - Span) div SH + 1 else OH)"
    by (simp add: assms(2))
qed

text \<open>
  With stride and kernel length at least 1, a span and a padded input that fit a
  \<open>size_t\<close>, and the output length that matches them, the three counts of a dimension
  add up to the output length, in \<open>size_t\<close> and as natural numbers.
\<close>

lemma DimensionCounts_sum:
  fixes PR :: size_t
  assumes "SH \<noteq> 0" and "KH \<noteq> 0" and "unat DH * (unat KH - 1) + 1 < 2 ^ 64"
    and "unat IH + unat PL + unat PR < 2 ^ 64"
    and "unat DH * (unat KH - 1) + 1 \<le> unat IH + unat PL + unat PR"
    and "unat OH = (unat IH + unat PL + unat PR - (unat DH * (unat KH - 1) + 1)) div unat SH + 1"
  shows "\<exists>L M R. DimensionCounts IH OH KH DH PL SH = Some (L, M, R) \<and>
           L + M + R = OH \<and> unat L + unat M + unat R = unat OH"
proof -
  let ?Span = "SpanValue DH KH"
  have sp: "unat ?Span = unat DH * (unat KH - 1) + 1" using assms(2,3) by (rule unat_Span)
  then have sp0: "?Span \<noteq> 0" by (metis Suc_eq_plus1 nat.distinct(1) unat_0)
  have ipl: "unat IH + unat PL < 2 ^ 64" using assms(4) by simp
  obtain c where c: "InteriorOutputCount IH ?Span SH = Some c"
    and cn: "unat c = (if unat ?Span \<le> unat IH then (unat IH - unat ?Span) div unat SH + 1 else 0)"
    using unat_InteriorOutputCount [OF assms(1) sp0] by blast
  obtain w where w: "OutputCountWithLeftPad IH PL ?Span SH OH = Some w"
    and wn: "unat w = (if unat ?Span \<le> unat IH + unat PL
               then (unat IH + unat PL - unat ?Span) div unat SH + 1 else unat OH)"
    using unat_OutputCountWithLeftPad [OF assms(1) sp0 ipl] by blast
  have le: "unat ?Span \<le> unat IH + unat PL + unat PR" using assms(5) sp by simp
  have oh: "unat OH = (unat IH + unat PL + unat PR - unat ?Span) div unat SH + 1"
    using assms(6) sp by simp
  have cw: "unat c \<le> unat w" unfolding cn wn by (rule counts_ordered(1) [OF le oh])
  have wo: "unat w \<le> unat OH" unfolding wn by (rule counts_ordered(2) [OF le oh])
  have w1: "1 \<le> unat w" unfolding wn by (rule counts_ordered(3) [OF le oh])
  have l: "unat (w - c) = unat w - unat c" using cw by (simp add: unat_sub word_le_nat_alt)
  have r: "unat (OH - w) = unat OH - unat w" using wo by (simp add: unat_sub word_le_nat_alt)
  have "\<exists>L M R. DimensionCounts IH OH KH DH PL SH = Some (L, M, R) \<and>
           unat L + unat M + unat R = unat OH"
  proof (cases "w - c = 0 \<and> PL > 0")
    case True
    then have "w = c" by simp
    then have "c \<noteq> 0" using w1 by (metis not_one_le_zero unat_0)
    then have m: "unat (c - 1) = unat c - 1" and c1: "1 \<le> unat c"
      using unat_gt_0 [of c] by (simp_all add: unat_minus_one)
    have "DimensionCounts IH OH KH DH PL SH = Some (1, c - 1, OH - w)"
      using c w True by (simp add: DimensionCounts_def LeftPadFixUp_def)
    moreover have "unat (1::64 word) + unat (c - 1) + unat (OH - w) = unat OH"
      using m c1 r wo \<open>w = c\<close> by simp
    ultimately show ?thesis by blast
  next
    case False
    then have "DimensionCounts IH OH KH DH PL SH = Some (w - c, c, OH - w)"
      using c w by (auto simp: DimensionCounts_def LeftPadFixUp_def)
    moreover have "unat (w - c) + unat c + unat (OH - w) = unat OH"
      using l r cw wo by simp
    ultimately show ?thesis by blast
  qed
  then show ?thesis using DimensionCounts_word_sum by blast
qed

subsection \<open>The counts stored in the work block\<close>

text \<open>
  The preprocessor writes, for each spatial dimension, the lengths it was given (or their
  defaults) and the three counts that \<open>DimensionCounts\<close> returns for them, and a
  later dimension leaves the entries of an earlier one alone.
\<close>

lemma sample_fixup_prepare:
  "MlasPrepareNchwcWorkBlock blank_work_block 2 [1, 8, 5, 5] (Some [3, 3]) (Some [1, 1])
     (Some [1, 1, 1, 1]) (Some [2, 2]) [1, 8, 3, 3] = Some sample_fixup_work_block"
  by code_simp

lemma PrepareDimension_stored:
  assumes "PrepareDimension D i k d p t out dim s = Some s'" and "D \<noteq> 0"
  shows "\<exists>l c r.
           DimensionCounts (i ! dim) (out ! dim)
             (case k of Some ks \<Rightarrow> ks ! dim | None \<Rightarrow> i ! dim)
             (case d of Some ds \<Rightarrow> ds ! dim | None \<Rightarrow> 1)
             (case p of Some ps \<Rightarrow> ps ! dim | None \<Rightarrow> 0)
             (case t of Some ts \<Rightarrow> ts ! dim | None \<Rightarrow> 1) = Some (l, c, r) \<and>
           StoredDimension (fst s') dim =
             (i ! dim, out ! dim,
              (case k of Some ks \<Rightarrow> ks ! dim | None \<Rightarrow> i ! dim),
              (case d of Some ds \<Rightarrow> ds ! dim | None \<Rightarrow> 1),
              (case p of Some ps \<Rightarrow> ps ! dim | None \<Rightarrow> 0),
              (case t of Some ts \<Rightarrow> ts ! dim | None \<Rightarrow> 1), l, c, r)"
    and "dim < length i \<and> dim < length out"
    and "j < dim \<Longrightarrow> StoredDimension (fst s') j = StoredDimension (fst s) j"
  using assms
  by (cases s; cases k; cases d; cases p; cases t;
      auto simp: PrepareDimension_def StoredDimension_def rd_def wr_def
           split: Option.bind_splits prod.splits if_splits)+

lemma PrepareDimensions_preserve:
  assumes "PrepareDimensions n dim D i k d p t out s = Some s'" and "D \<noteq> 0" and "j < dim"
  shows "StoredDimension (fst s') j = StoredDimension (fst s) j"
  using assms
proof (induction n arbitrary: dim s)
  case 0
  then show ?case by simp
next
  case (Suc n)
  from Suc.prems(1) obtain s1 where
    1: "PrepareDimension D i k d p t out dim s = Some s1"
    and 2: "PrepareDimensions n (Suc dim) D i k d p t out s1 = Some s'"
    by (auto split: Option.bind_splits)
  have "StoredDimension (fst s') j = StoredDimension (fst s1) j"
    using Suc.IH [OF 2 Suc.prems(2)] Suc.prems(3) by simp
  also have "\<dots> = StoredDimension (fst s) j"
    using 1 Suc.prems(2,3) by (rule PrepareDimension_stored(3))
  finally show ?case .
qed

lemma PrepareDimensions_stored:
  assumes "PrepareDimensions n dim D i k d p t out s = Some s'" and "D \<noteq> 0"
    and "dim \<le> j" and "j < dim + n"
  shows "j < length i \<and> j < length out \<and> (\<exists>l c r.
           DimensionCounts (i ! j) (out ! j)
             (case k of Some ks \<Rightarrow> ks ! j | None \<Rightarrow> i ! j)
             (case d of Some ds \<Rightarrow> ds ! j | None \<Rightarrow> 1)
             (case p of Some ps \<Rightarrow> ps ! j | None \<Rightarrow> 0)
             (case t of Some ts \<Rightarrow> ts ! j | None \<Rightarrow> 1) = Some (l, c, r) \<and>
           StoredDimension (fst s') j =
             (i ! j, out ! j,
              (case k of Some ks \<Rightarrow> ks ! j | None \<Rightarrow> i ! j),
              (case d of Some ds \<Rightarrow> ds ! j | None \<Rightarrow> 1),
              (case p of Some ps \<Rightarrow> ps ! j | None \<Rightarrow> 0),
              (case t of Some ts \<Rightarrow> ts ! j | None \<Rightarrow> 1), l, c, r))"
  using assms
proof (induction n arbitrary: dim s)
  case 0
  then show ?case by simp
next
  case (Suc n)
  from Suc.prems(1) obtain s1 where
    1: "PrepareDimension D i k d p t out dim s = Some s1"
    and 2: "PrepareDimensions n (Suc dim) D i k d p t out s1 = Some s'"
    by (auto split: Option.bind_splits)
  show ?case
  proof (cases "j = dim")
    case True
    have "StoredDimension (fst s') dim = StoredDimension (fst s1) dim"
      using 2 Suc.prems(2) by (rule PrepareDimensions_preserve) simp
    then show ?thesis
      unfolding True using PrepareDimension_stored(1,2) [OF 1 Suc.prems(2)] by simp
  next
    case False
    then have "Suc dim \<le> j" "j < Suc dim + n" using Suc.prems(3,4) by simp_all
    then show ?thesis using Suc.IH [OF 2 Suc.prems(2)] by blast
  qed
qed

lemma MlasPrepareNchwcWorkBlock_stored:
  assumes "MlasPrepareNchwcWorkBlock wb D i k d p t out = Some wb'" and "dim < unat D"
  shows "\<exists>l c r.
           DimensionCounts (i ! (dim + 2)) (out ! (dim + 2))
             (case k of Some ks \<Rightarrow> ks ! dim | None \<Rightarrow> i ! (dim + 2))
             (case d of Some ds \<Rightarrow> ds ! dim | None \<Rightarrow> 1)
             (case p of Some ps \<Rightarrow> ps ! dim | None \<Rightarrow> 0)
             (case t of Some ts \<Rightarrow> ts ! dim | None \<Rightarrow> 1) = Some (l, c, r) \<and>
           StoredDimension wb' dim =
             (i ! (dim + 2), out ! (dim + 2),
              (case k of Some ks \<Rightarrow> ks ! dim | None \<Rightarrow> i ! (dim + 2)),
              (case d of Some ds \<Rightarrow> ds ! dim | None \<Rightarrow> 1),
              (case p of Some ps \<Rightarrow> ps ! dim | None \<Rightarrow> 0),
              (case t of Some ts \<Rightarrow> ts ! dim | None \<Rightarrow> 1), l, c, r)"
proof -
  from assms(1) obtain b ci co s' where
    l: "PrepareDimensions (unat D) 0 (unat D) (drop 2 i) k d p t (drop 2 out)
              (wb\<lparr>BatchCount := b, InputChannels := ci, OutputChannels := co\<rparr>, 1, 1) = Some s'"
    and w: "wb' = (fst s')\<lparr>InputSize := fst (snd s'), OutputSize := snd (snd s')\<rparr>"
    by (auto simp: MlasPrepareNchwcWorkBlock_def Let_def split: Option.bind_splits prod.splits)
  have D0: "unat D \<noteq> 0" using assms(2) by simp
  have st: "StoredDimension wb' dim = StoredDimension (fst s') dim"
    by (simp add: w StoredDimension_def)
  have r: "dim < length (drop 2 i) \<and> dim < length (drop 2 out) \<and> (\<exists>l c r.
           DimensionCounts (drop 2 i ! dim) (drop 2 out ! dim)
             (case k of Some ks \<Rightarrow> ks ! dim | None \<Rightarrow> drop 2 i ! dim)
             (case d of Some ds \<Rightarrow> ds ! dim | None \<Rightarrow> 1)
             (case p of Some ps \<Rightarrow> ps ! dim | None \<Rightarrow> 0)
             (case t of Some ts \<Rightarrow> ts ! dim | None \<Rightarrow> 1) = Some (l, c, r) \<and>
           StoredDimension (fst s') dim =
             (drop 2 i ! dim, drop 2 out ! dim,
              (case k of Some ks \<Rightarrow> ks ! dim | None \<Rightarrow> drop 2 i ! dim),
              (case d of Some ds \<Rightarrow> ds ! dim | None \<Rightarrow> 1),
              (case p of Some ps \<Rightarrow> ps ! dim | None \<Rightarrow> 0),
              (case t of Some ts \<Rightarrow> ts ! dim | None \<Rightarrow> 1), l, c, r))"
    using l D0 by (rule PrepareDimensions_stored) (use assms(2) in simp_all)
  then have "dim < length i - 2" "dim < length out - 2" by simp_all
  then have "dim + 2 < length i" "dim + 2 < length out" by arith+
  then have e: "drop 2 i ! dim = i ! (dim + 2)" "drop 2 out ! dim = out ! (dim + 2)"
    by (simp_all add: add.commute)
  show ?thesis using r unfolding st e by blast
qed

text \<open>
  Claim C2.  Whenever \<open>MlasPrepareNchwcWorkBlock\<close> returns a work block, for every
  spatial dimension below \<open>Dimensions\<close> the work block holds the lengths that were
  passed in (or their defaults); and if the stored stride and kernel length are at least
  1, the span and the padded input fit a \<open>size_t\<close>, and the stored output length is
  the one that matches them (the padded input covers the span, and OH is the floor
  quotient of the excess by the stride, plus one), then the stored triple satisfies
  \<open>OutputCountLeftPad + OutputCount + OutputCountRightPad = OH\<close>, in \<open>size_t\<close>
  and as natural numbers: no term has wrapped around, also when the fix-up has run.
\<close>

theorem partition_sum:
  fixes PR :: size_t
  assumes "MlasPrepareNchwcWorkBlock wb D i k d p t out = Some wb'" and "dim < unat D"
    and "StrideShape wb' ! dim \<noteq> 0" and "KernelShape wb' ! dim \<noteq> 0"
    and "unat (DilationShape wb' ! dim) * (unat (KernelShape wb' ! dim) - 1) + 1 < 2 ^ 64"
    and "unat (InputShape wb' ! dim) + unat (Padding wb' ! dim) + unat PR < 2 ^ 64"
    and "unat (DilationShape wb' ! dim) * (unat (KernelShape wb' ! dim) - 1) + 1
           \<le> unat (InputShape wb' ! dim) + unat (Padding wb' ! dim) + unat PR"
    and "unat (OutputShape wb' ! dim) =
           (unat (InputShape wb' ! dim) + unat (Padding wb' ! dim) + unat PR
              - (unat (DilationShape wb' ! dim) * (unat (KernelShape wb' ! dim) - 1) + 1))
           div unat (StrideShape wb' ! dim) + 1"
  shows "OutputCountLeftPad wb' ! dim + OutputCount wb' ! dim + OutputCountRightPad wb' ! dim
           = OutputShape wb' ! dim \<and>
         unat (OutputCountLeftPad wb' ! dim) + unat (OutputCount wb' ! dim)
           + unat (OutputCountRightPad wb' ! dim) = unat (OutputShape wb' ! dim) \<and>
         InputShape wb' ! dim = i ! (dim + 2) \<and>
         OutputShape wb' ! dim = out ! (dim + 2) \<and>
         KernelShape wb' ! dim = (case k of Some ks \<Rightarrow> ks ! dim | None \<Rightarrow> i ! (dim + 2)) \<and>
         DilationShape wb' ! dim = (case d of Some ds \<Rightarrow> ds ! dim | None \<Rightarrow> 1) \<and>
         Padding wb' ! dim = (case p of Some ps \<Rightarrow> ps ! dim | None \<Rightarrow> 0) \<and>
         StrideShape wb' ! dim = (case t of Some ts \<Rightarrow> ts ! dim | None \<Rightarrow> 1)"
proof -
  from MlasPrepareNchwcWorkBlock_stored [OF assms(1,2)] obtain l c r where
    dc: "DimensionCounts (i ! (dim + 2)) (out ! (dim + 2))
             (case k of Some ks \<Rightarrow> ks ! dim | None \<Rightarrow> i ! (dim + 2))
             (case d of Some ds \<Rightarrow> ds ! dim | None \<Rightarrow> 1)
             (case p of Some ps \<Rightarrow> ps ! dim | None \<Rightarrow> 0)
             (case t of Some ts \<Rightarrow> ts ! dim | None \<Rightarrow> 1) = Some (l, c, r)"
    and st: "StoredDimension wb' dim =
             (i ! (dim + 2), out ! (dim + 2),
              (case k of Some ks \<Rightarrow> ks ! dim | None \<Rightarrow> i ! (dim + 2)),
              (case d of Some ds \<Rightarrow> ds ! dim | None \<Rightarrow> 1),
              (case p of Some ps \<Rightarrow> ps ! dim | None \<Rightarrow> 0),
              (case t of Some ts \<Rightarrow> ts ! dim | None \<Rightarrow> 1), l, c, r)"
    by blast
  from st have f:
    "InputShape wb' ! dim = i ! (dim + 2)" "OutputShape wb' ! dim = out ! (dim + 2)"
    "KernelShape wb' ! dim = (case k of Some ks \<Rightarrow> ks ! dim | None \<Rightarrow> i ! (dim + 2))"
    "DilationShape wb' ! dim = (case d of Some ds \<Rightarrow> ds ! dim | None \<Rightarrow> 1)"
    "Padding wb' ! dim = (case p of Some ps \<Rightarrow> ps ! dim | None \<Rightarrow> 0)"
    "StrideShape wb' ! dim = (case t of Some ts \<Rightarrow> ts ! dim | None \<Rightarrow> 1)"
    "OutputCountLeftPad wb' ! dim = l" "OutputCount wb' ! dim = c"
    "OutputCountRightPad wb' ! dim = r"
    by (simp_all add: StoredDimension_def)
  have dc': "DimensionCounts (InputShape wb' ! dim) (OutputShape wb' ! dim)
               (KernelShape wb' ! dim) (DilationShape wb' ! dim) (Padding wb' ! dim)
               (StrideShape wb' ! dim) = Some (l, c, r)"
    using dc by (simp only: f(1-6))
  from DimensionCounts_sum [OF assms(3-8)] obtain L M R where
    "DimensionCounts (InputShape wb' ! dim) (OutputShape wb' ! dim)
               (KernelShape wb' ! dim) (DilationShape wb' ! dim) (Padding wb' ! dim)
               (StrideShape wb' ! dim) = Some (L, M, R)"
    and s: "L + M + R = OutputShape wb' ! dim"
       "unat L + unat M + unat R = unat (OutputShape wb' ! dim)"
    by blast
  with dc' have "L = l" "M = c" "R = r" by simp_all
  with s have "l + c + r = OutputShape wb' ! dim"
       "unat l + unat c + unat r = unat (OutputShape wb' ! dim)" by simp_all
  then show ?thesis unfolding f(7-9) using f(1-6) by (intro conjI)
qed

text \<open>
  The instance is a dimension of length 5 with kernel 3, stride 2 and padding 1 on
  both sides, for which the fix-up runs: the stored triple is (1, 1, 1) and OH is 3.
\<close>

theorem partition_sum_witness:
  "MlasPrepareNchwcWorkBlock blank_work_block 2 [1, 8, 5, 5] (Some [3, 3]) (Some [1, 1])
     (Some [1, 1, 1, 1]) (Some [2, 2]) [1, 8, 3, 3] = Some sample_fixup_work_block \<and>
   OutputCountLeftPad sample_fixup_work_block ! 0 = 1 \<and>
   OutputCount sample_fixup_work_block ! 0 = 1 \<and>
   OutputCountRightPad sample_fixup_work_block ! 0 = 1 \<and>
   OutputCountLeftPad sample_fixup_work_block ! 0 + OutputCount sample_fixup_work_block ! 0
     + OutputCountRightPad sample_fixup_work_block ! 0 = 3 \<and>
   unat (OutputCountLeftPad sample_fixup_work_block ! 0)
     + unat (OutputCount sample_fixup_work_block ! 0)
     + unat (OutputCountRightPad sample_fixup_work_block ! 0) = 3"
  using partition_sum [OF sample_fixup_prepare, where dim = 0 and PR = 1] sample_fixup_prepare
  by (simp add: sample_fixup_work_block_def)

subsection \<open>The with-left-pad count\<close>

text \<open>
  Claim C3, as the code has it.  The with-left-pad count is the floor quotient of
  \<open>IH + PL - Span\<close> by the stride, plus one, when \<open>Span \<le> IH + PL\<close>, and is the
  output length OH otherwise (not 0).  The code applies no clamp; with the matching
  output length the count lies between 1 and OH.
\<close>

theorem with_left_pad_count:
  fixes PR :: size_t
  assumes "SH \<noteq> 0" and "KH \<noteq> 0" and "unat DH * (unat KH - 1) + 1 < 2 ^ 64"
    and "unat IH + unat PL < 2 ^ 64"
  shows "\<exists>w. OutputCountWithLeftPad IH PL (SpanValue DH KH) SH OH = Some w \<and>
           unat w = (if unat DH * (unat KH - 1) + 1 \<le> unat IH + unat PL
                     then (unat IH + unat PL - (unat DH * (unat KH - 1) + 1)) div unat SH + 1
                     else unat OH) \<and>
           (unat DH * (unat KH - 1) + 1 \<le> unat IH + unat PL + unat PR \<and>
            unat OH = (unat IH + unat PL + unat PR - (unat DH * (unat KH - 1) + 1)) div unat SH + 1
            \<longrightarrow> 1 \<le> unat w \<and> unat w \<le> unat OH)"
proof -
  let ?Span = "SpanValue DH KH"
  have sp: "unat ?Span = unat DH * (unat KH - 1) + 1" using assms(2,3) by (rule unat_Span)
  then have sp0: "?Span \<noteq> 0" by (metis Suc_eq_plus1 nat.distinct(1) unat_0)
  obtain w where w: "OutputCountWithLeftPad IH PL ?Span SH OH = Some w"
    and wn: "unat w = (if unat ?Span \<le> unat IH + unat PL
               then (unat IH + unat PL - unat ?Span) div unat SH + 1 else unat OH)"
    using unat_OutputCountWithLeftPad [OF assms(1) sp0 assms(4)] by blast
  have "1 \<le> unat w \<and> unat w \<le> unat OH"
    if "unat ?Span \<le> unat IH + unat PL + PR"
      and "unat OH = (unat IH + unat PL + PR - unat ?Span) div unat SH + 1" for PR
    unfolding wn using counts_ordered(2,3) [OF that] by simp
  then show ?thesis using w wn sp by auto
qed

theorem with_left_pad_count_witness:
  "\<exists>w. OutputCountWithLeftPad 1 0 (SpanValue 1 3) 1 1 = Some w \<and> unat w = unat (1 :: size_t) \<and>
       1 \<le> unat w \<and> unat w \<le> unat (1 :: size_t)"
  using with_left_pad_count [where SH=1 and KH=3 and DH=1 and IH=1 and PL=0 and PR=2 and OH=1] by simp

text \<open>
  Claim C3 as stated fails: with input length 1, no left padding and a kernel of 3 rows
  (span 3, right padding 2, output length 1), \<open>IH + PL < Span\<close> and the count is the
  output length 1, where the formula of the specification gives 0; the stored triple is
  \<open>(1, 0, 0)\<close>.
\<close>

theorem with_left_pad_count_counterexample:
  "(1::int) + 0 < 3 \<and>
   map_option uint (OutputCountWithLeftPad 1 0 (SpanValue 1 3) 1 1) = Some 1 \<and>
   Withpad_spec 1 0 3 1 1 = 0 \<and>
   DimensionCounts 1 1 3 1 0 1 = Some (1, 0, 0)"
  by (simp add: OutputCountWithLeftPad_def SpanValue_def Withpad_spec_def DimensionCounts_def
        InteriorOutputCount_def LeftPadFixUp_def word_le_nat_alt)

section \<open>Work partitioning\<close>

subsection \<open>Conversions of the thread count and index\<close>

lemma unat_ucast_up:
  fixes x :: int32_t
  shows "unat (ucast x :: size_t) = unat x"
proof -
  have "unat x < 2 ^ 32" using unsigned_less [of x] by simp
  then have "unat x < 2 ^ 64" by (rule less_trans) simp
  then show ?thesis by (simp add: unsigned_ucast_eq take_bit_nat_eq_self)
qed

lemma sint_small:
  fixes x :: int32_t
  assumes "unat x < 2 ^ 31"
  shows "sint x = int (unat x)"
proof -
  have a: "sint x = signed_take_bit (LENGTH(32) - Suc 0) (uint x)" by (rule sint_uint)
  have b: "- (2 ^ 31) \<le> uint x" by (rule order_trans [OF _ uint_nonnegative]) simp
  have "int (unat x) < int (2 ^ 31)" using assms by (rule iffD2 [OF of_nat_less_iff])
  then have c: "uint x < 2 ^ 31" by simp
  have "signed_take_bit 31 (uint x) = uint x"
    using b c by (rule signed_take_bit_int_eq_self)
  with a show ?thesis by simp
qed

lemma unat_scast_small:
  fixes x :: int32_t
  assumes "unat x < 2 ^ 31"
  shows "unat (scast x :: size_t) = unat x"
proof -
  have "(scast x :: size_t) = word_of_int (int (unat x))"
    using sint_small [OF assms] by (simp add: scast_eq)
  then have "(scast x :: size_t) = ucast x" by simp
  then show ?thesis by (simp add: unat_ucast_up)
qed

lemma unat_of_nat_small:
  assumes "i < 2 ^ 31"
  shows "unat (of_nat i :: int32_t) = i"
proof -
  have "i < 2 ^ 32" using assms by (rule less_trans) simp
  then show ?thesis by (simp add: unat_of_nat)
qed

subsection \<open>The partition of the specification\<close>

lemma start_alt:
  "PartitionStart_spec T W i = (W div T) * i + min i (W mod T)"
  by (auto simp: PartitionStart_spec_def Let_def min_def algebra_simps)

lemma start_Suc:
  "PartitionStart_spec T W (Suc i) = PartitionStart_spec T W i + PartitionCount_spec T W i"
  by (auto simp: start_alt PartitionCount_spec_def Let_def min_def)

lemma start_0: "PartitionStart_spec T W 0 = 0"
  by (simp add: start_alt)

lemma start_T:
  assumes "0 < T"
  shows "PartitionStart_spec T W T = W"
proof -
  have "W mod T < T" using assms by simp
  then have "min T (W mod T) = W mod T" by simp
  then show ?thesis by (simp add: start_alt)
qed

lemma start_mono: "i \<le> j \<Longrightarrow> PartitionStart_spec T W i \<le> PartitionStart_spec T W j"
  unfolding start_alt by (intro add_mono mult_le_mono2 min.mono) simp_all

lemma start_le_total: "0 < T \<Longrightarrow> i \<le> T \<Longrightarrow> PartitionStart_spec T W i \<le> W"
  using start_mono [of i T T W] by (simp add: start_T)

lemma ranges_union:
  "(\<Union>i<k. {PartitionStart_spec T W i ..< PartitionStart_spec T W i + PartitionCount_spec T W i})
     = {0 ..< PartitionStart_spec T W k}"
proof (induction k)
  case 0
  show ?case by (simp add: start_0)
next
  case (Suc k)
  have "{0 ..< PartitionStart_spec T W k} \<union>
        {PartitionStart_spec T W k ..< PartitionStart_spec T W (Suc k)}
          = {0 ..< PartitionStart_spec T W (Suc k)}"
    using start_mono [of k "Suc k" T W] by (intro ivl_disj_un_two) simp_all
  with Suc show ?case by (simp add: lessThan_Suc start_Suc Un_commute)
qed

lemma ranges_disjoint:
  assumes "i < j"
  shows "{PartitionStart_spec T W i ..< PartitionStart_spec T W i + PartitionCount_spec T W i} \<inter>
         {PartitionStart_spec T W j ..< PartitionStart_spec T W j + PartitionCount_spec T W j} = {}"
proof -
  have "PartitionStart_spec T W (Suc i) \<le> PartitionStart_spec T W j"
    using assms by (intro start_mono) simp
  then show ?thesis by (auto simp: start_Suc)
qed

lemma idle_threads:
  assumes "W < T" "W \<le> i"
  shows "PartitionCount_spec T W i = 0"
  using assms by (simp add: PartitionCount_spec_def)

subsection \<open>The code computes that partition\<close>

lemma uint_of_sint_nonneg:
  fixes x :: int32_t
  assumes "0 \<le> sint x"
  shows "uint x = sint x"
proof -
  have "sint x < 2 ^ (LENGTH(32) - 1)" by (rule sint_lt)
  then have "sint x < 2 ^ 31" by simp
  also have "(2::int) ^ 31 < 2 ^ 32" by simp
  finally have "take_bit 32 (sint x) = sint x"
    using assms by (intro take_bit_int_eq_self)
  moreover have "uint x = take_bit LENGTH(32) (sint x)" by (rule uint_sint)
  ultimately show ?thesis by simp
qed

lemma unat_of_sint_nonneg:
  fixes x :: int32_t
  assumes "0 \<le> sint x"
  shows "unat x = nat (sint x)" and "unat x < 2 ^ 31"
proof -
  show a: "unat x = nat (sint x)"
    using uint_of_sint_nonneg [OF assms] by (simp add: unat_eq_nat_uint)
  have "sint x < 2 ^ (LENGTH(32) - 1)" by (rule sint_lt)
  then have "sint x < 2 ^ 31" by simp
  then show "unat x < 2 ^ 31" using assms a by (simp add: nat_less_iff)
qed

lemma PartitionWork_unat:
  assumes t: "0 < sint (tids wb)" and i: "i < nat (sint (tids wb))"
  shows "\<exists>a n. PartitionWork (of_nat i) wb W = Some (a, n) \<and>
           unat a = PartitionStart_spec (nat (sint (tids wb))) (unat W) i \<and>
           unat n = PartitionCount_spec (nat (sint (tids wb))) (unat W) i"
proof -
  let ?T = "nat (sint (tids wb))"
  let ?Tw = "scast (tids wb) :: size_t"
  let ?q = "unat W div ?T" and ?r = "unat W mod ?T"
  have t0: "0 \<le> sint (tids wb)" using t by simp
  have tu: "unat (tids wb) = ?T" and tb: "unat (tids wb) < 2 ^ 31"
    using unat_of_sint_nonneg [OF t0] by simp_all
  have T: "unat ?Tw = ?T" using unat_scast_small [OF tb] tu by simp
  have Tpos: "0 < ?T" using t by simp
  then have Tw0: "?Tw \<noteq> 0" using T by (metis less_numeral_extra(3) unat_0)
  have ib: "i < 2 ^ 31" using i tb tu by simp
  have iu: "unat (of_nat i :: int32_t) = i" using ib by (rule unat_of_nat_small)
  have iuc: "unat (ucast (of_nat i :: int32_t) :: size_t) = i" by (simp only: unat_ucast_up iu)
  have isc: "unat (scast (of_nat i :: int32_t) :: size_t) = i"
    using unat_scast_small [of "of_nat i"] iu ib by simp
  have q: "unat (W div ?Tw) = ?q" by (simp add: unat_div T)
  have r: "unat (W mod ?Tw) = ?r" by (simp add: unat_mod T)
  have Wb: "unat W < 2 ^ 64" using unsigned_less [of W] by simp
  have W: "unat W = ?q * ?T + ?r" by simp
  show ?thesis
  proof (cases "i < ?r")
    case True
    have "?q * 1 \<le> ?q * ?T" using Tpos by (intro mult_le_mono2) simp
    then have "?q + 1 \<le> unat W" using True W by linarith
    then have "unat (W div ?Tw) + unat (1 :: size_t) < 2 ^ 64" using Wb q by simp
    then have q1: "unat (W div ?Tw + 1) = ?q + 1"
      using q by (simp add: unat_add_lem [THEN iffD1])
    have "?q * i \<le> ?q * ?T" using i by (intro mult_le_mono2) simp
    moreover have "(?q + 1) * i = ?q * i + i" by (simp add: algebra_simps)
    ultimately have "(?q + 1) * i \<le> ?q * ?T + ?r" using True by linarith
    then have "(?q + 1) * i \<le> unat W" by simp
    then have "unat (W div ?Tw + 1) * unat (scast (of_nat i :: int32_t) :: size_t) < 2 ^ 64"
      using Wb q1 isc by simp
    then have a: "unat ((W div ?Tw + 1) * scast (of_nat i :: int32_t)) = (?q + 1) * i"
      using q1 isc by (simp add: unat_mult_lem [THEN iffD1])
    have c: "(ucast (of_nat i :: int32_t) :: size_t) < W mod ?Tw"
      using True iuc r by (simp add: word_less_nat_alt)
    have "PartitionWork (of_nat i) wb W =
            Some ((W div ?Tw + 1) * scast (of_nat i :: int32_t), W div ?Tw + 1)"
      using c Tw0 by (simp add: PartitionWork_def udiv_def umod_def)
    then show ?thesis using a q1 True
      by (simp add: start_alt PartitionCount_spec_def min_def)
  next
    case False
    have le: "?q * i \<le> ?q * ?T" using i by (intro mult_le_mono2) simp
    then have b1: "?q * i + ?r \<le> unat W" using W by linarith
    then have "unat (W div ?Tw) * unat (scast (of_nat i :: int32_t) :: size_t) < 2 ^ 64"
      using Wb q isc by simp
    then have m: "unat (W div ?Tw * scast (of_nat i :: int32_t)) = ?q * i"
      using q isc by (simp add: unat_mult_lem [THEN iffD1])
    have "unat (W div ?Tw * scast (of_nat i :: int32_t)) + unat (W mod ?Tw) < 2 ^ 64"
      using m r b1 Wb by simp
    then have a: "unat (W div ?Tw * scast (of_nat i :: int32_t) + W mod ?Tw) = ?q * i + ?r"
      using m r by (simp add: unat_add_lem [THEN iffD1])
    have c: "\<not> (ucast (of_nat i :: int32_t) :: size_t) < W mod ?Tw"
      using False iuc r by (simp add: word_less_nat_alt)
    have "PartitionWork (of_nat i) wb W =
            Some (W div ?Tw * scast (of_nat i :: int32_t) + W mod ?Tw, W div ?Tw)"
      using c Tw0 by (simp add: PartitionWork_def udiv_def umod_def)
    then show ?thesis using a q False
      by (simp add: start_alt PartitionCount_spec_def min_def)
  qed
qed

lemma ThreadRange_eq:
  assumes "0 < sint (tids wb)" and "i < nat (sint (tids wb))"
  shows "ThreadRange wb W i =
           {PartitionStart_spec (nat (sint (tids wb))) (unat W) i ..<
            PartitionStart_spec (nat (sint (tids wb))) (unat W) i +
            PartitionCount_spec (nat (sint (tids wb))) (unat W) i}"
  using PartitionWork_unat [OF assms, of W] by (auto simp: ThreadRange_def)

text \<open>
  Claim C5.  For a thread count of at least 1 and any total work \<open>W\<close>, with
  \<open>q = W div T\<close> and \<open>r = W mod T\<close>: thread \<open>i < r\<close> gets \<open>q + 1\<close> items from
  \<open>(q + 1) * i\<close> and thread \<open>i \<ge> r\<close> gets \<open>q\<close> items from
  \<open>(q + 1) * r + q * (i - r)\<close>; each range starts where the one before ends, the
  ranges of different threads are disjoint, their union is \<open>{0 ..< W}\<close>, and when
  \<open>W < T\<close> the threads \<open>i \<ge> W\<close> get no work.
\<close>

theorem partition_work:
  assumes "0 < sint (tids wb)"
  shows "(\<forall>i < nat (sint (tids wb)). \<exists>a n.
            PartitionWork (of_nat i) wb W = Some (a, n) \<and>
            unat a = PartitionStart_spec (nat (sint (tids wb))) (unat W) i \<and>
            unat n = PartitionCount_spec (nat (sint (tids wb))) (unat W) i) \<and>
         (\<forall>i. Suc i < nat (sint (tids wb)) \<longrightarrow> (\<exists>a n a' n'.
            PartitionWork (of_nat i) wb W = Some (a, n) \<and>
            PartitionWork (of_nat (Suc i)) wb W = Some (a', n') \<and>
            unat a' = unat a + unat n)) \<and>
         (\<Union>i < nat (sint (tids wb)). ThreadRange wb W i) = {0 ..< unat W} \<and>
         (\<forall>i < nat (sint (tids wb)). \<forall>j < nat (sint (tids wb)).
            i \<noteq> j \<longrightarrow> ThreadRange wb W i \<inter> ThreadRange wb W j = {}) \<and>
         (unat W < nat (sint (tids wb)) \<longrightarrow>
            (\<forall>i < nat (sint (tids wb)). unat W \<le> i \<longrightarrow>
               (\<exists>a. PartitionWork (of_nat i) wb W = Some (a, 0))))"
proof -
  let ?T = "nat (sint (tids wb))"
  let ?S = "PartitionStart_spec ?T (unat W)" and ?C = "PartitionCount_spec ?T (unat W)"
  have Tpos: "0 < ?T" using assms by simp
  have pw: "\<exists>a n. PartitionWork (of_nat i) wb W = Some (a, n) \<and> unat a = ?S i \<and> unat n = ?C i"
    if "i < ?T" for i
    using PartitionWork_unat [OF assms that] .
  have c1: "\<forall>i < ?T. \<exists>a n. PartitionWork (of_nat i) wb W = Some (a, n) \<and>
              unat a = ?S i \<and> unat n = ?C i"
    using pw by blast
  have c2: "\<forall>i. Suc i < ?T \<longrightarrow> (\<exists>a n a' n'.
            PartitionWork (of_nat i) wb W = Some (a, n) \<and>
            PartitionWork (of_nat (Suc i)) wb W = Some (a', n') \<and>
            unat a' = unat a + unat n)"
  proof (intro allI impI)
    fix i assume s: "Suc i < ?T"
    then have "i < ?T" by simp
    from pw [OF this] obtain a n where
      1: "PartitionWork (of_nat i) wb W = Some (a, n)" "unat a = ?S i" "unat n = ?C i" by blast
    from pw [OF s] obtain a' n' where
      2: "PartitionWork (of_nat (Suc i)) wb W = Some (a', n')" "unat a' = ?S (Suc i)" by blast
    have "unat a' = unat a + unat n" using 1 2 by (simp only: start_Suc)
    with 1 2 show "\<exists>a n a' n'.
            PartitionWork (of_nat i) wb W = Some (a, n) \<and>
            PartitionWork (of_nat (Suc i)) wb W = Some (a', n') \<and>
            unat a' = unat a + unat n" by blast
  qed
  have "(\<Union>i < ?T. ThreadRange wb W i) = (\<Union>i < ?T. {?S i ..< ?S i + ?C i})"
    using ThreadRange_eq [OF assms] by simp
  also have "\<dots> = {0 ..< ?S ?T}" by (rule ranges_union)
  also have "\<dots> = {0 ..< unat W}" using Tpos by (simp only: start_T)
  finally have c3: "(\<Union>i < ?T. ThreadRange wb W i) = {0 ..< unat W}" .
  have c4: "\<forall>i < ?T. \<forall>j < ?T. i \<noteq> j \<longrightarrow> ThreadRange wb W i \<inter> ThreadRange wb W j = {}"
  proof (intro allI impI)
    fix i j assume ij: "i < ?T" "j < ?T" "i \<noteq> j"
    have r: "ThreadRange wb W i = {?S i ..< ?S i + ?C i}"
            "ThreadRange wb W j = {?S j ..< ?S j + ?C j}"
      using ThreadRange_eq [OF assms] ij by simp_all
    consider "i < j" | "j < i" using ij(3) by linarith
    then show "ThreadRange wb W i \<inter> ThreadRange wb W j = {}"
    proof cases
      case 1
      then show ?thesis unfolding r by (rule ranges_disjoint)
    next
      case 2
      then have "{?S j ..< ?S j + ?C j} \<inter> {?S i ..< ?S i + ?C i} = {}"
        by (rule ranges_disjoint)
      then show ?thesis unfolding r by (simp only: Int_commute)
    qed
  qed
  have c5: "unat W < ?T \<longrightarrow>
            (\<forall>i < ?T. unat W \<le> i \<longrightarrow> (\<exists>a. PartitionWork (of_nat i) wb W = Some (a, 0)))"
  proof (intro allI impI)
    fix i assume h: "unat W < ?T" "i < ?T" "unat W \<le> i"
    from pw [OF h(2)] obtain a n where
      1: "PartitionWork (of_nat i) wb W = Some (a, n)" "unat n = ?C i" by blast
    have "?C i = 0" using h(1,3) by (rule idle_threads)
    then have "n = 0" using 1(2) by (simp add: unat_eq_zero)
    with 1 show "\<exists>a. PartitionWork (of_nat i) wb W = Some (a, 0)" by blast
  qed
  from c1 c2 c3 c4 c5 show ?thesis by (intro conjI)
qed

theorem partition_work_witness:
  "PartitionWork 0 (sample_conv_work_block\<lparr>tids := 3\<rparr>) 7 = Some (0, 3) \<and>
   PartitionWork 1 (sample_conv_work_block\<lparr>tids := 3\<rparr>) 7 = Some (3, 2) \<and>
   PartitionWork 2 (sample_conv_work_block\<lparr>tids := 3\<rparr>) 7 = Some (5, 2) \<and>
   (\<Union>i < 3. ThreadRange (sample_conv_work_block\<lparr>tids := 3\<rparr>) 7 i) = {0 ..< 7} \<and>
   ThreadRange (sample_conv_work_block\<lparr>tids := 3\<rparr>) 7 0 \<inter>
     ThreadRange (sample_conv_work_block\<lparr>tids := 3\<rparr>) 7 1 = {} \<and>
   (\<exists>a. PartitionWork 2 (sample_conv_work_block\<lparr>tids := 3\<rparr>) 2 = Some (a, 0))"
proof -
  let ?wb = "sample_conv_work_block\<lparr>tids := 3\<rparr>"
  have h: "0 < sint (tids ?wb)" by simp
  have n: "nat (sint (tids ?wb)) = 3" by simp
  have p: "PartitionWork 0 ?wb 7 = Some (0, 3)" "PartitionWork 1 ?wb 7 = Some (3, 2)"
    "PartitionWork 2 ?wb 7 = Some (5, 2)" by code_simp+
  from partition_work [OF h, of 7] have
    u: "(\<Union>i < 3. ThreadRange ?wb 7 i) = {0 ..< 7}"
    and d: "\<forall>i < 3. \<forall>j < 3. i \<noteq> j \<longrightarrow> ThreadRange ?wb 7 i \<inter> ThreadRange ?wb 7 j = {}"
    unfolding n by simp_all
  from d have d01: "ThreadRange ?wb 7 0 \<inter> ThreadRange ?wb 7 1 = {}" by simp
  from partition_work [OF h, of 2] have
    "\<forall>i < 3. 2 \<le> i \<longrightarrow> (\<exists>a. PartitionWork (of_nat i) ?wb 2 = Some (a, 0))"
    unfolding n by simp
  then have "(2::nat) < 3 \<longrightarrow> 2 \<le> (2::nat) \<longrightarrow>
      (\<exists>a. PartitionWork (of_nat 2) ?wb 2 = Some (a, 0))" by (rule spec)
  then have i2: "\<exists>a. PartitionWork 2 ?wb 2 = Some (a, 0)" by simp
  from p u d01 i2 show ?thesis by simp
qed

section \<open>Kernel flags\<close>

lemma BuildKernelFlags_cases:
  "BuildKernelFlags a l b k =
     (if a then 1 else 0) OR
     (if l \<and> b \<noteq> nullptr then 2 else 0) OR
     (if l \<and> k = MlasReluActivation then 4 else 0) OR
     (if l \<and> k \<noteq> MlasReluActivation \<and> k \<noteq> MlasIdentityActivation then 8 else 0)"
  by (simp add: BuildKernelFlags_def Let_def)

lemma bits_of_flag_constants:
  "bit (1 :: unsigned) 0" "\<not> bit (1 :: unsigned) 1" "\<not> bit (1 :: unsigned) 2" "\<not> bit (1 :: unsigned) 3"
  "\<not> bit (2 :: unsigned) 0" "bit (2 :: unsigned) 1" "\<not> bit (2 :: unsigned) 2" "\<not> bit (2 :: unsigned) 3"
  "\<not> bit (4 :: unsigned) 0" "\<not> bit (4 :: unsigned) 1" "bit (4 :: unsigned) 2" "\<not> bit (4 :: unsigned) 3"
  "\<not> bit (8 :: unsigned) 0" "\<not> bit (8 :: unsigned) 1" "\<not> bit (8 :: unsigned) 2" "bit (8 :: unsigned) 3"
  by (simp_all add: bit_numeral_word_iff)

lemma BuildKernelFlags_bits:
  "bit (BuildKernelFlags a l b k) 0 \<longleftrightarrow> a"
  "bit (BuildKernelFlags a l b k) 1 \<longleftrightarrow> l \<and> b \<noteq> nullptr"
  "bit (BuildKernelFlags a l b k) 2 \<longleftrightarrow> l \<and> k = MlasReluActivation"
  "bit (BuildKernelFlags a l b k) 3 \<longleftrightarrow>
     l \<and> k \<noteq> MlasReluActivation \<and> k \<noteq> MlasIdentityActivation"
  by (simp_all add: BuildKernelFlags_cases bit_or_iff bits_of_flag_constants)

text \<open>
  Claim C4.  In the NCHWc-direct, the NCHW and the pointwise executor, at every step
  \<open>ic\<close> over the input channels: bit 0 of \<open>KernelFlags\<close> is set exactly when
  \<open>ic\<close> is nonzero or \<open>ZeroMode\<close> is false; bits 1, 2 and 3 are set only at the step
  whose index plus step length equals \<open>InputChannels\<close>, and there bit 1 exactly when
  the bias pointer is not null, bit 2 exactly when the activation is ReLU, and bit 3
  exactly when it is neither ReLU nor the identity.
\<close>

theorem kernel_flags:
  "(bit (NchwcKernelFlags B wb b ic) 0 \<longleftrightarrow> ic \<noteq> 0 \<or> \<not> ZeroMode wb) \<and>
   (bit (NchwcKernelFlags B wb b ic) 1 \<longleftrightarrow> ic + B = InputChannels wb \<and> b \<noteq> nullptr) \<and>
   (bit (NchwcKernelFlags B wb b ic) 2 \<longleftrightarrow>
      ic + B = InputChannels wb \<and> ActivationKind (Activation wb) = MlasReluActivation) \<and>
   (bit (NchwcKernelFlags B wb b ic) 3 \<longleftrightarrow>
      ic + B = InputChannels wb \<and> ActivationKind (Activation wb) \<noteq> MlasReluActivation \<and>
      ActivationKind (Activation wb) \<noteq> MlasIdentityActivation) \<and>
   (bit (NchwKernelFlags wb b ic) 0 \<longleftrightarrow> ic \<noteq> 0 \<or> \<not> ZeroMode wb) \<and>
   (bit (NchwKernelFlags wb b ic) 1 \<longleftrightarrow> ic + 1 = InputChannels wb \<and> b \<noteq> nullptr) \<and>
   (bit (NchwKernelFlags wb b ic) 2 \<longleftrightarrow>
      ic + 1 = InputChannels wb \<and> ActivationKind (Activation wb) = MlasReluActivation) \<and>
   (bit (NchwKernelFlags wb b ic) 3 \<longleftrightarrow>
      ic + 1 = InputChannels wb \<and> ActivationKind (Activation wb) \<noteq> MlasReluActivation \<and>
      ActivationKind (Activation wb) \<noteq> MlasIdentityActivation) \<and>
   (bit (PointwiseKernelFlags wb b ic) 0 \<longleftrightarrow> ic \<noteq> 0 \<or> \<not> ZeroMode wb) \<and>
   (bit (PointwiseKernelFlags wb b ic) 1 \<longleftrightarrow>
      ic + InputChannelBatch wb ic = InputChannels wb \<and> b \<noteq> nullptr) \<and>
   (bit (PointwiseKernelFlags wb b ic) 2 \<longleftrightarrow>
      ic + InputChannelBatch wb ic = InputChannels wb \<and>
      ActivationKind (Activation wb) = MlasReluActivation) \<and>
   (bit (PointwiseKernelFlags wb b ic) 3 \<longleftrightarrow>
      ic + InputChannelBatch wb ic = InputChannels wb \<and>
      ActivationKind (Activation wb) \<noteq> MlasReluActivation \<and>
      ActivationKind (Activation wb) \<noteq> MlasIdentityActivation)"
  unfolding NchwcKernelFlags_def NchwKernelFlags_def PointwiseKernelFlags_def
  by (simp only: BuildKernelFlags_bits simp_thms)

theorem kernel_flags_witness:
  "\<not> bit (NchwcKernelFlags 8 sample_conv_work_block 4096 0) 0 \<and>
   bit (NchwcKernelFlags 8 sample_conv_work_block 4096 0) 1 \<and>
   bit (NchwcKernelFlags 8 sample_conv_work_block 4096 0) 2 \<and>
   \<not> bit (NchwcKernelFlags 8 sample_conv_work_block 4096 0) 3 \<and>
   bit (NchwKernelFlags sample_conv_work_block 0 1) 0 \<and>
   \<not> bit (NchwKernelFlags sample_conv_work_block 0 1) 1 \<and>
   \<not> bit (PointwiseKernelFlags sample_conv_work_block 0 0) 1"
  using kernel_flags [of 8 sample_conv_work_block 4096 0]
        kernel_flags [of 8 sample_conv_work_block 0 1]
        kernel_flags [of 8 sample_conv_work_block 0 0]
  by (simp add: sample_conv_work_block_def nullptr_def InputChannelBatch_def
        MaximumInputChannelBatch_def)

section \<open>Algorithm selection\<close>

lemma PrepareDimension_channels:
  assumes "PrepareDimension D i k d p t out dim s = Some s'"
  shows "InputChannels (fst s') = InputChannels (fst s) \<and>
         OutputChannels (fst s') = OutputChannels (fst s) \<and>
         BatchCount (fst s') = BatchCount (fst s)"
  using assms
  by (cases s) (auto simp: PrepareDimension_def split: Option.bind_splits prod.splits)

lemma PrepareDimensions_channels:
  assumes "PrepareDimensions n dim D i k d p t out s = Some s'"
  shows "InputChannels (fst s') = InputChannels (fst s) \<and>
         OutputChannels (fst s') = OutputChannels (fst s) \<and>
         BatchCount (fst s') = BatchCount (fst s)"
  using assms
proof (induction n arbitrary: dim s)
  case 0
  then show ?case by simp
next
  case (Suc n)
  from Suc.prems obtain s1 where
    1: "PrepareDimension D i k d p t out dim s = Some s1"
    and 2: "PrepareDimensions n (Suc dim) D i k d p t out s1 = Some s'"
    by (auto split: Option.bind_splits)
  show ?case using Suc.IH [OF 2] PrepareDimension_channels [OF 1] by simp
qed

lemma MlasPrepareNchwcWorkBlock_channels:
  assumes "MlasPrepareNchwcWorkBlock wb D i k d p t out = Some wb'"
  shows "InputChannels wb' = i ! 1 \<and> OutputChannels wb' = out ! 1 \<and> BatchCount wb' = i ! 0"
proof -
  from assms obtain b ci co s' where
    r: "rd i 0 = Some b" "rd i 1 = Some ci" "rd out 1 = Some co"
    and l: "PrepareDimensions (unat D) 0 (unat D) (drop 2 i) k d p t (drop 2 out)
              (wb\<lparr>BatchCount := b, InputChannels := ci, OutputChannels := co\<rparr>, 1, 1) = Some s'"
    and w: "wb' = (fst s')\<lparr>InputSize := fst (snd s'), OutputSize := snd (snd s')\<rparr>"
    by (auto simp: MlasPrepareNchwcWorkBlock_def Let_def split: Option.bind_splits prod.splits)
  have "b = i ! 0" "ci = i ! 1" "co = out ! 1"
    using r by (auto simp: rd_def split: if_splits)
  then show ?thesis using PrepareDimensions_channels [OF l] w by simp
qed

lemma PrepareDimension_arrays:
  assumes "PrepareDimension D i k d p t out dim s = Some s'"
  shows "dim < length (KernelShape (fst s)) \<and> dim + D < length (Padding (fst s)) \<and>
         KernelShape (fst s') =
           (KernelShape (fst s))[dim := (case k of Some ks \<Rightarrow> ks ! dim | None \<Rightarrow> i ! dim)] \<and>
         Padding (fst s') =
           (Padding (fst s))[dim := (case p of Some ps \<Rightarrow> ps ! dim | None \<Rightarrow> 0),
                             dim + D := (case p of Some ps \<Rightarrow> ps ! (dim + D) | None \<Rightarrow> 0)]"
  using assms
  by (cases s)
     (auto simp: PrepareDimension_def rd_def wr_def
           split: Option.bind_splits prod.splits option.splits if_splits)

lemma PrepareDimensions_two:
  assumes "PrepareDimensions 2 dim D i k d p t out s = Some s'"
  shows "\<exists>s1. PrepareDimension D i k d p t out dim s = Some s1 \<and>
              PrepareDimension D i k d p t out (Suc dim) s1 = Some s'"
  using assms by (auto simp: numeral_2_eq_2 split: Option.bind_splits)

lemma MlasPrepareNchwcWorkBlock_2d:
  assumes "MlasPrepareNchwcWorkBlock wb 2 i k d p t out = Some wb'"
  shows "KernelShape wb' ! 0 = (case k of Some ks \<Rightarrow> ks ! 0 | None \<Rightarrow> i ! 2) \<and>
         KernelShape wb' ! 1 = (case k of Some ks \<Rightarrow> ks ! 1 | None \<Rightarrow> i ! 3) \<and>
         Padding wb' ! 0 = (case p of Some ps \<Rightarrow> ps ! 0 | None \<Rightarrow> 0) \<and>
         Padding wb' ! 1 = (case p of Some ps \<Rightarrow> ps ! 1 | None \<Rightarrow> 0) \<and>
         Padding wb' ! 2 = (case p of Some ps \<Rightarrow> ps ! 2 | None \<Rightarrow> 0) \<and>
         Padding wb' ! 3 = (case p of Some ps \<Rightarrow> ps ! 3 | None \<Rightarrow> 0)"
proof -
  from assms obtain b ci co s2 where
    r: "rd i 1 = Some ci"
    and l: "PrepareDimensions 2 0 2 (drop 2 i) k d p t (drop 2 out)
              (wb\<lparr>BatchCount := b, InputChannels := ci, OutputChannels := co\<rparr>, 1, 1) = Some s2"
    and w: "wb' = (fst s2)\<lparr>InputSize := fst (snd s2), OutputSize := snd (snd s2)\<rparr>"
    by (auto simp: MlasPrepareNchwcWorkBlock_def Let_def split: Option.bind_splits prod.splits)
  from PrepareDimensions_two [OF l] obtain s1 where
    1: "PrepareDimension 2 (drop 2 i) k d p t (drop 2 out) 0
          (wb\<lparr>BatchCount := b, InputChannels := ci, OutputChannels := co\<rparr>, 1, 1) = Some s1"
    and 2: "PrepareDimension 2 (drop 2 i) k d p t (drop 2 out) (Suc 0) s1 = Some s2"
    by blast
  note a1 = PrepareDimension_arrays [OF 1] and a2 = PrepareDimension_arrays [OF 2]
  have "2 \<le> length i" using r by (simp add: rd_def split: if_splits)
  then have i2: "drop 2 i ! 0 = i ! 2" "drop 2 i ! Suc 0 = i ! 3" by simp_all
  have lk: "0 < length (KernelShape wb)" "Suc 0 < length (KernelShape wb)"
    using a1 a2 by auto
  have lp: "0 < length (Padding wb)" "Suc 0 < length (Padding wb)"
    "Suc (Suc 0) < length (Padding wb)" "Suc (Suc (Suc 0)) < length (Padding wb)"
    using a1 a2 by auto
  have n: "(2::nat) = Suc (Suc 0)" "(3::nat) = Suc (Suc (Suc 0))" by simp_all
  have K: "KernelShape wb' =
      (KernelShape wb)[0 := (case k of Some ks \<Rightarrow> ks ! 0 | None \<Rightarrow> i ! 2),
                       Suc 0 := (case k of Some ks \<Rightarrow> ks ! Suc 0 | None \<Rightarrow> i ! 3)]"
    using a1 a2 w i2 by (cases k) simp_all
  have P: "Padding wb' =
      (Padding wb)[0 := (case p of Some ps \<Rightarrow> ps ! 0 | None \<Rightarrow> 0),
                   Suc (Suc 0) := (case p of Some ps \<Rightarrow> ps ! Suc (Suc 0) | None \<Rightarrow> 0),
                   Suc 0 := (case p of Some ps \<Rightarrow> ps ! Suc 0 | None \<Rightarrow> 0),
                   Suc (Suc (Suc 0)) := (case p of Some ps \<Rightarrow> ps ! Suc (Suc (Suc 0)) | None \<Rightarrow> 0)]"
    using a1 a2 w by (cases p) (simp_all add: n)
  show ?thesis unfolding K P using lk lp
    by (cases k; cases p) (simp_all add: nth_list_update n)
qed

lemma MlasNchwcConv_Some:
  assumes "MlasNchwcConv B T wb0 D i k d p t out G inp flt bias outp act z = Some (routine, wb)"
  shows "\<exists>wb2. MlasPrepareNchwcWorkBlock
                  (wb0\<lparr>MLAS_NCHWC_CONV_WORK_BLOCK.Input := inp,
                         MLAS_NCHWC_CONV_WORK_BLOCK.Output := outp,
                         GroupCount := G,
                         MLAS_NCHWC_CONV_WORK_BLOCK.Filter := flt,
                         MLAS_NCHWC_CONV_WORK_BLOCK.Bias := bias,
                         Activation := act, ZeroMode := z\<rparr>) D i k d p t out = Some wb2 \<and>
           G \<noteq> 0 \<and>
           wb = wb2\<lparr>InputChannels := InputChannels wb2 div G,
                     OutputChannels := OutputChannels wb2 div G, tids := T\<rparr> \<and>
           routine = SelectThreadedRoutine B wb"
  using assms
  by (auto simp: MlasNchwcConv_def Let_def udiv_def SelectThreadedRoutine_def
           split: Option.bind_splits if_splits)

text \<open>
  Claim C6.  A 2-D dispatch of \<open>MlasNchwcConv\<close> that reaches the thread pool has
  divided the input and output channel counts of the shapes by \<open>GroupCount\<close> (which
  is nonzero) after the preprocessing, and the routine it schedules is: pointwise
  exactly when the per-group input channels are at least the block size, both kernel
  lengths are 1 and the four paddings are 0; the NCHWc-direct one exactly when the
  per-group input channels are at least the block size and that is not so; depthwise
  exactly when the per-group input channels are below the block size and both per-group
  channel counts are 1; and the NCHW one otherwise.
\<close>

theorem conv_algorithm_selection:
  assumes "MlasNchwcConv B T wb0 2 i k d p t out G inp flt bias outp act z = Some (routine, wb)"
  shows "G \<noteq> 0 \<and>
         InputChannels wb = (i ! 1) div G \<and> OutputChannels wb = (out ! 1) div G \<and>
         KernelShape wb ! 0 = (case k of Some ks \<Rightarrow> ks ! 0 | None \<Rightarrow> i ! 2) \<and>
         KernelShape wb ! 1 = (case k of Some ks \<Rightarrow> ks ! 1 | None \<Rightarrow> i ! 3) \<and>
         Padding wb ! 0 = (case p of Some ps \<Rightarrow> ps ! 0 | None \<Rightarrow> 0) \<and>
         Padding wb ! 1 = (case p of Some ps \<Rightarrow> ps ! 1 | None \<Rightarrow> 0) \<and>
         Padding wb ! 2 = (case p of Some ps \<Rightarrow> ps ! 2 | None \<Rightarrow> 0) \<and>
         Padding wb ! 3 = (case p of Some ps \<Rightarrow> ps ! 3 | None \<Rightarrow> 0) \<and>
         (routine = Threaded_CONV_POINTWISE \<longleftrightarrow>
            B \<le> InputChannels wb \<and>
            KernelShape wb ! 0 = 1 \<and> KernelShape wb ! 1 = 1 \<and>
            Padding wb ! 0 = 0 \<and> Padding wb ! 1 = 0 \<and> Padding wb ! 2 = 0 \<and> Padding wb ! 3 = 0) \<and>
         (routine = Threaded_CONV_NCHWC \<longleftrightarrow>
            B \<le> InputChannels wb \<and>
            \<not> (KernelShape wb ! 0 = 1 \<and> KernelShape wb ! 1 = 1 \<and>
               Padding wb ! 0 = 0 \<and> Padding wb ! 1 = 0 \<and> Padding wb ! 2 = 0 \<and> Padding wb ! 3 = 0)) \<and>
         (routine = Threaded_CONV_DEPTHWISE \<longleftrightarrow>
            \<not> B \<le> InputChannels wb \<and> InputChannels wb = 1 \<and> OutputChannels wb = 1) \<and>
         (routine = Threaded_CONV_NCHW \<longleftrightarrow>
            \<not> B \<le> InputChannels wb \<and> \<not> (InputChannels wb = 1 \<and> OutputChannels wb = 1))"
proof -
  from MlasNchwcConv_Some [OF assms] obtain wb2 where
    pr: "MlasPrepareNchwcWorkBlock
                  (wb0\<lparr>MLAS_NCHWC_CONV_WORK_BLOCK.Input := inp,
                         MLAS_NCHWC_CONV_WORK_BLOCK.Output := outp,
                         GroupCount := G,
                         MLAS_NCHWC_CONV_WORK_BLOCK.Filter := flt,
                         MLAS_NCHWC_CONV_WORK_BLOCK.Bias := bias,
                         Activation := act, ZeroMode := z\<rparr>) 2 i k d p t out = Some wb2"
    and g: "G \<noteq> 0"
    and w: "wb = wb2\<lparr>InputChannels := InputChannels wb2 div G,
                     OutputChannels := OutputChannels wb2 div G, tids := T\<rparr>"
    and r: "routine = SelectThreadedRoutine B wb"
    by blast
  note ch = MlasPrepareNchwcWorkBlock_channels [OF pr]
  note ar = MlasPrepareNchwcWorkBlock_2d [OF pr]
  have c: "InputChannels wb = (i ! 1) div G" "OutputChannels wb = (out ! 1) div G"
    using ch w by simp_all
  have a: "KernelShape wb = KernelShape wb2" "Padding wb = Padding wb2"
    using w by simp_all
  have sel:
    "(routine = Threaded_CONV_POINTWISE \<longleftrightarrow>
            B \<le> InputChannels wb \<and>
            KernelShape wb ! 0 = 1 \<and> KernelShape wb ! 1 = 1 \<and>
            Padding wb ! 0 = 0 \<and> Padding wb ! 1 = 0 \<and> Padding wb ! 2 = 0 \<and> Padding wb ! 3 = 0)"
    "(routine = Threaded_CONV_NCHWC \<longleftrightarrow>
            B \<le> InputChannels wb \<and>
            \<not> (KernelShape wb ! 0 = 1 \<and> KernelShape wb ! 1 = 1 \<and>
               Padding wb ! 0 = 0 \<and> Padding wb ! 1 = 0 \<and> Padding wb ! 2 = 0 \<and> Padding wb ! 3 = 0))"
    "(routine = Threaded_CONV_DEPTHWISE \<longleftrightarrow>
            \<not> B \<le> InputChannels wb \<and> InputChannels wb = 1 \<and> OutputChannels wb = 1)"
    "(routine = Threaded_CONV_NCHW \<longleftrightarrow>
            \<not> B \<le> InputChannels wb \<and> \<not> (InputChannels wb = 1 \<and> OutputChannels wb = 1))"
    unfolding r SelectThreadedRoutine_def by auto
  show ?thesis using g c ar sel unfolding a by (intro conjI) simp_all
qed

theorem conv_algorithm_selection_witness:
  "MlasNchwcConv 8 1 blank_conv_work_block 2 [1, 16, 7, 7] (Some [5, 5]) (Some [1, 1])
     (Some [3, 3, 3, 3]) (Some [2, 2]) [1, 16, 5, 5] 2 4096 8192 0 16384
     \<lparr>ActivationKind = MlasReluActivation\<rparr> True
   = Some (Threaded_CONV_NCHWC, sample_conv_work_block) \<and>
   InputChannels sample_conv_work_block = 16 div 2 \<and>
   OutputChannels sample_conv_work_block = 16 div 2 \<and>
   8 \<le> InputChannels sample_conv_work_block \<and>
   KernelShape sample_conv_work_block ! 0 = 5"
  using conv_algorithm_selection [OF sample_conv_dispatch] sample_conv_dispatch
  by simp

section \<open>Axis wrap of the grouped convolution\<close>

text \<open>
  Claim C8, as the code has it.  When \<open>CompleteWork\<close> ends an output image and the
  filter sets of the group are done (\<open>FilterSet\<close> wraps to 0), \<open>Filter\<close> and
  \<open>Bias\<close> are reset to those of the work block exactly when the group was the last
  one (\<open>Group\<close> wraps to 0 as well); with groups left they keep the values advanced
  past the filter set and \<open>Group\<close> is incremented.
\<close>

theorem complete_work_reset:
  assumes "CompleteWork B alg w = Some alg'"
    and "ph alg + w = OutputHeight (WorkBlock alg)"
    and "FilterSet alg + 1 = FilterSetCount alg"
  shows "FilterSet alg' = 0 \<and> ph alg' = 0 \<and>
         (Group alg + 1 = GroupCount (WorkBlock alg) \<longrightarrow>
            Filter alg' = MLAS_NCHWC_CONV_WORK_BLOCK.Filter (WorkBlock alg) \<and>
            Bias alg' = MLAS_NCHWC_CONV_WORK_BLOCK.Bias (WorkBlock alg) \<and>
            Group alg' = 0) \<and>
         (Group alg + 1 \<noteq> GroupCount (WorkBlock alg) \<longrightarrow>
            Filter alg' =
              ptr_add (Filter alg)
                (B * FilterCount alg * InputChannels (WorkBlock alg)
                   * KernelSize (WorkBlock alg)) \<and>
            Bias alg' =
              (if Bias alg \<noteq> nullptr then ptr_add (Bias alg) (B * FilterCount alg)
               else Bias alg) \<and>
            Group alg' = Group alg + 1)"
  using assms
  by (auto simp: CompleteWork_def ComputeFilterCount_def Let_def split: Option.bind_splits)

text \<open>
  Claim C8 as stated fails: in the sample convolution with two groups, the first
  \<open>CompleteWork\<close> wraps \<open>FilterSet\<close> to 0 and leaves \<open>Filter\<close> at 14592, not at
  the 8192 of the work block.
\<close>

theorem complete_work_reset_counterexample:
  "FilterSet sample_conv_algorithm + 1 = FilterSetCount sample_conv_algorithm \<and>
   ph sample_conv_algorithm + 5 = OutputHeight (WorkBlock sample_conv_algorithm) \<and>
   map_option FilterSet (CompleteWork 8 sample_conv_algorithm 5) = Some 0 \<and>
   map_option Filter (CompleteWork 8 sample_conv_algorithm 5) = Some 14592 \<and>
   MLAS_NCHWC_CONV_WORK_BLOCK.Filter (WorkBlock sample_conv_algorithm) = 8192"
  by code_simp

theorem complete_work_reset_witness:
  "\<exists>alg'. CompleteWork 8 sample_conv_algorithm_next 5 = Some alg' \<and>
     Filter alg' = 8192 \<and> Bias alg' = 0 \<and> Group alg' = 0 \<and> FilterSet alg' = 0 \<and> ph alg' = 0"
proof -
  let ?a = "sample_conv_algorithm_next"
  have "CompleteWork 8 ?a 5 \<noteq> None" by code_simp
  then obtain alg' where c: "CompleteWork 8 ?a 5 = Some alg'" by blast
  have h1: "ph ?a + 5 = OutputHeight (WorkBlock ?a)" by code_simp
  have h2: "FilterSet ?a + 1 = FilterSetCount ?a" by code_simp
  have h3: "Group ?a + 1 = GroupCount (WorkBlock ?a)" by code_simp
  have w: "MLAS_NCHWC_CONV_WORK_BLOCK.Filter (WorkBlock ?a) = 8192"
     "MLAS_NCHWC_CONV_WORK_BLOCK.Bias (WorkBlock ?a) = 0" by code_simp+
  from complete_work_reset [OF c h1 h2] h3 w c show ?thesis by simp
qed

section \<open>Pooling divisor\<close>

lemma PoolCall_KernelSize:
  "arg_KernelSize (PoolCall B wb row i out) = KernelHeight wb * KernelWidth wb \<and>
   arg_Kernel (PoolCall B wb row i out) = PoolingKind wb \<and>
   arg_EffectiveKernelHeight (PoolCall B wb row i out) = snd (PoolEffectiveKernel wb row)"
  by (simp add: PoolCall_def Let_def KernelSize_def split: prod.splits)

lemma PoolLoop_calls:
  "c \<in> set (PoolLoop B wb s) \<Longrightarrow>
     \<exists>row i out. c = PoolCall B wb row i out"
proof (induction B wb s rule: PoolLoop.induct)
  case (1 B wb row i out n)
  show ?case
  proof (cases "n > 0")
    case True
    with "1.prems" have "c = PoolCall B wb row i out \<or>
        c \<in> set (PoolLoop B wb
          (if row + 1 = OutputHeight wb
           then (0, ptr_add i (B * InputSize wb), ptr_add out (B * OutputWidth wb), n - 1)
           else (row + 1, i, ptr_add out (B * OutputWidth wb), n - 1)))"
      by (simp del: PoolLoop.simps add: PoolLoop.simps [of B wb row i out n])
    then show ?thesis using "1.IH" [OF True] by blast
  next
    case False
    with "1.prems" show ?thesis by simp
  qed
qed

lemma PoolLoop_length: "length (PoolLoop B wb (row, i, out, n)) = unat n"
proof (induction B wb "(row, i, out, n)" arbitrary: row i out n rule: PoolLoop.induct)
  case (1 B wb row i out n)
  show ?case
  proof (cases "n > 0")
    case True
    then have n0: "n \<noteq> 0" by auto
    have "length (PoolLoop B wb (row, i, out, n)) = Suc (unat (n - 1))"
      using True "1.hyps" [OF True]
      by (simp del: PoolLoop.simps add: PoolLoop.simps [of B wb row i out n] split: if_splits)
    then show ?thesis using n0 by (simp add: unat_minus_one unat_gt_0)
  next
    case False
    then show ?thesis by (simp add: word_greater_zero_iff)
  qed
qed

text \<open>
  Claim C10.  Every call of the pooling microkernel that the pooling executor makes
  passes \<open>KernelHeight * KernelWidth\<close> as the kernel size, whatever the effective
  kernel height of the row and whatever the pooling kind.
\<close>

theorem pool_divisor_is_kernel_size:
  assumes "PoolExecute B wb Index = Some calls" and "c \<in> set calls"
  shows "arg_KernelSize c = KernelHeight wb * KernelWidth wb \<and> arg_Kernel c = PoolingKind wb"
proof -
  from assms(1) obtain s where "calls = PoolLoop B wb s"
    by (auto simp: PoolExecute_def Let_def split: Option.bind_splits prod.splits)
  with assms(2) obtain row i out where "c = PoolCall B wb row i out"
    using PoolLoop_calls by blast
  then show ?thesis by (simp add: PoolCall_KernelSize)
qed

lemma sample_pool_calls:
  "map_option (map (\<lambda>c. (arg_KernelSize c, arg_EffectiveKernelHeight c)))
     (PoolExecute 8 sample_pool_work_block 0) = Some [(9, 2), (9, 3), (9, 3), (9, 2)]"
  by code_simp

theorem pool_divisor_is_kernel_size_witness:
  "\<exists>calls c. PoolExecute 8 sample_pool_work_block 0 = Some calls \<and> c \<in> set calls \<and>
     KernelHeight sample_pool_work_block = 3 \<and> arg_EffectiveKernelHeight c = 2 \<and>
     arg_KernelSize c = 9 \<and> arg_Kernel c = MlasAveragePoolingExcludePad"
proof -
  let ?r = "PoolExecute 8 sample_pool_work_block 0"
  have "?r \<noteq> None" by code_simp
  then have e: "?r = Some (the ?r)" by simp
  have "the ?r \<noteq> []" by code_simp
  then have m: "hd (the ?r) \<in> set (the ?r)" by simp
  have k: "KernelHeight sample_pool_work_block = 3"
    "KernelHeight sample_pool_work_block * KernelWidth sample_pool_work_block = 9"
    "PoolingKind sample_pool_work_block = MlasAveragePoolingExcludePad"
    by code_simp+
  have t: "arg_EffectiveKernelHeight (hd (the ?r)) = 2" by code_simp
  from pool_divisor_is_kernel_size [OF e m] k t e m show ?thesis by metis
qed

section \<open>Effective kernel\<close>

text \<open>
  Claim C1 fails on the code.  In the sample convolution (input height 7, kernel 5,
  stride 2, padding 3) the preprocessor stores the counts 1, 2, 2, so that output row 1
  counts as interior and \<open>ComputeEffectiveKernel\<close> does not trim it: it returns the
  first input row \<open>1 * 2 - 3\<close>, wrapped around to \<open>2 ^ 64 - 1\<close>, with the full
  kernel height 5 and the filter pointer unchanged.  That row is outside the input.
\<close>

theorem effective_kernel_leaves_input:
  "MlasNchwcConv 8 1 blank_conv_work_block 2 [1, 16, 7, 7] (Some [5, 5]) (Some [1, 1])
     (Some [3, 3, 3, 3]) (Some [2, 2]) [1, 16, 5, 5] 2 4096 8192 0 16384
     \<lparr>ActivationKind = MlasReluActivation\<rparr> True
   = Some (Threaded_CONV_NCHWC, sample_conv_work_block) \<and>
   ComputeEffectiveKernel sample_conv_work_block 1 (8 * 8 * 5) 8192 = (8192, - 1, 5) \<and>
   \<not> (- 1 :: size_t) < InputHeight sample_conv_work_block"
  by code_simp

subsection \<open>The walk over the kernel rows in closed form\<close>

lemma ceil_div_less:
  assumes "0 < D"
  shows "(y < ceil_div x D) = (y * D < x)"
proof -
  define q where "q = (- x) div D"
  define r where "r = (- x) mod D"
  have e: "- x = q * D + r" by (simp add: q_def r_def)
  have r: "0 \<le> r" "r < D" using assms by (simp_all add: r_def)
  have c: "ceil_div x D = - q" by (simp add: ceil_div_def q_def)
  show ?thesis
  proof
    assume "y < ceil_div x D"
    then have "q + 1 \<le> - y" using c by simp
    then have "(q + 1) * D \<le> (- y) * D" using assms by (intro mult_right_mono) simp_all
    then have "q * D + D \<le> - (y * D)" by (simp add: algebra_simps)
    then show "y * D < x" using e r by linarith
  next
    assume h: "y * D < x"
    show "y < ceil_div x D"
    proof (rule ccontr)
      assume "\<not> y < ceil_div x D"
      then have "- y \<le> q" using c by simp
      then have "(- y) * D \<le> q * D" using assms by (intro mult_right_mono) simp_all
      then have "- (y * D) \<le> q * D" by simp
      then show False using h e r by linarith
    qed
  qed
qed

lemma rows_below:
  assumes "0 < D"
  shows "(a + int j * D < b) = (j < nat (max 0 (ceil_div (b - a) D)))"
proof -
  have "(a + int j * D < b) = (int j * D < b - a)" by linarith
  also have "\<dots> = (int j < ceil_div (b - a) D)" using ceil_div_less [OF assms] by simp
  also have "\<dots> = (j < nat (max 0 (ceil_div (b - a) D)))" by (simp add: max_def) linarith
  finally show ?thesis .
qed

lemma rows_negative:
  assumes "0 < D"
  shows "(a + int j * D < 0) = (j < nat (max 0 (ceil_div (- a) D)))"
  using rows_below [OF assms, of a j 0] by simp

lemma top_le_bottom:
  assumes "0 < D" "0 \<le> H"
  shows "nat (max 0 (ceil_div (- a) D)) \<le> nat (max 0 (ceil_div (H - a) D))"
proof (rule ccontr)
  let ?T = "nat (max 0 (ceil_div (- a) D))" and ?B = "nat (max 0 (ceil_div (H - a) D))"
  assume "\<not> ?T \<le> ?B"
  then have "?B < ?T" by (rule not_le_imp_less)
  then have "a + int ?B * D < 0" by (simp only: rows_negative [OF assms(1)])
  moreover have "\<not> a + int ?B * D < H" by (subst rows_below [OF assms(1)]) simp
  ultimately show False using assms(2) by linarith
qed

lemma sint_word_of_int_signed:
  assumes "- (2 ^ 63) \<le> x" "x < 2 ^ 63"
  shows "sint (word_of_int x :: size_t) = x"
proof -
  have "sint (word_of_int x :: size_t) = signed_take_bit (LENGTH(64) - 1) x"
    by (rule sint_sbintrunc')
  also have "\<dots> = signed_take_bit 63 x" by simp
  also have "\<dots> = x" using assms by (rule signed_take_bit_int_eq_self)
  finally show ?thesis .
qed

lemma word_of_int_inj_signed:
  assumes "- (2 ^ 63) \<le> x" "x < 2 ^ 63" "- (2 ^ 63) \<le> y" "y < 2 ^ 63"
    and "(word_of_int x :: size_t) = word_of_int y"
  shows "x = y"
proof -
  have "sint (word_of_int x :: size_t) = sint (word_of_int y :: size_t)"
    using assms(5) by (rule arg_cong)
  then show ?thesis
    by (simp only: sint_word_of_int_signed [OF assms(1,2)] sint_word_of_int_signed [OF assms(3,4)])
qed

lemma outside_input_test:
  fixes Hw :: size_t
  assumes "- (2 ^ 63) \<le> r" "r < 2 ^ 63" "uint Hw < 2 ^ 63"
  shows "(Hw \<le> word_of_int r) = (r < 0 \<or> uint Hw \<le> r)"
proof (cases "r < 0")
  case True
  have "uint (word_of_int r :: size_t) = r mod 2 ^ 64" by (simp add: uint_word_of_int)
  also have "\<dots> = r + 2 ^ 64"
  proof -
    have "(r + 2 ^ 64) mod 2 ^ 64 = r + 2 ^ 64" using True assms(1) by (intro mod_pos_pos_trivial) simp_all
    then show ?thesis by simp
  qed
  finally have "uint (word_of_int r :: size_t) = r + 2 ^ 64" .
  then have "uint Hw \<le> uint (word_of_int r :: size_t)" using assms(1,3) by simp
  then show ?thesis using True by (simp add: word_le_def)
next
  case False
  then have "r mod 2 ^ 64 = r" using assms(2) by (intro mod_pos_pos_trivial) simp_all
  then have "uint (word_of_int r :: size_t) = r" by (simp add: uint_word_of_int)
  then show ?thesis using False by (simp add: word_le_def)
qed

lemma walk_step:
  fixes a D H :: int and k :: nat and Hw Dw aw KHw FS :: size_t and f :: float_ptr
  defines "T \<equiv> nat (max 0 (ceil_div (- a) D))"
    and "Bs \<equiv> nat (max 0 (ceil_div (H - a) D))"
  defines "t \<equiv> \<lambda>k. if min k Bs \<le> T then k else T"
    and "c \<equiv> \<lambda>k. min k T + (k - Bs)"
  assumes D: "0 < D" "Dw = word_of_int D" and aw: "aw = word_of_int a"
    and H: "H = uint Hw" "H < 2 ^ 63"
    and lo: "- (2 ^ 63) \<le> a" and hi: "a + int (Suc k) * D < 2 ^ 63"
  shows "KernelWalkStep Hw Dw FS
           (ptr_add f (FS * of_nat (t k)), aw + of_nat (t k) * Dw,
            KHw - of_nat (c k), aw + of_nat k * Dw)
         = (ptr_add f (FS * of_nat (t (Suc k))), aw + of_nat (t (Suc k)) * Dw,
            KHw - of_nat (c (Suc k)), aw + of_nat (Suc k) * Dw)"
proof -
  have H0: "0 \<le> H" using H(1) by simp
  have TB: "T \<le> Bs" unfolding T_def Bs_def using D(1) H0 by (rule top_le_bottom)
  have neg: "(a + int j * D < 0) = (j < T)" for j
    unfolding T_def using D(1) by (rule rows_negative)
  have below: "(a + int j * D < H) = (j < Bs)" for j
    unfolding Bs_def using D(1) by (rule rows_below)
  have mono: "a + int i * D \<le> a + int j * D" if "i \<le> j" for i j
    using that D(1) by (simp add: mult_right_mono)
  have rng: "- (2 ^ 63) \<le> a + int j * D \<and> a + int j * D < 2 ^ 63" if "j \<le> Suc k" for j
    using mono [OF that] mono [of 0 j] lo hi by simp
  have rk: "- (2 ^ 63) \<le> a + int k * D" "a + int k * D < 2 ^ 63" using rng [of k] by simp_all
  have row: "aw + of_nat j * Dw = word_of_int (a + int j * D)" for j
    by (simp add: aw D(2))
  have test0: "(Hw \<le> word_of_int (a + int k * D)) = (k < T \<or> Bs \<le> k)"
  proof -
    have "(Hw \<le> word_of_int (a + int k * D)) = (a + int k * D < 0 \<or> uint Hw \<le> a + int k * D)"
      using rk H by (intro outside_input_test) simp_all
    also have "\<dots> = (k < T \<or> Bs \<le> k)" using neg [of k] below [of k] H(1) by auto
    finally show ?thesis .
  qed
  have test: "(Hw \<le> aw + of_nat k * Dw) = (k < T \<or> Bs \<le> k)"
    unfolding row by (rule test0)
  have next_row: "aw + of_nat j * Dw + Dw = aw + of_nat (Suc j) * Dw" for j
    by (simp add: algebra_simps)
  have next_filter: "ptr_add (ptr_add f (FS * of_nat j)) FS = ptr_add f (FS * of_nat (Suc j))" for j
    by (simp add: ptr_add_def algebra_simps)
  have next_count: "KHw - of_nat j - 1 = KHw - of_nat (Suc j)" for j
    by simp
  consider (top) "k < T" | (valid) "T \<le> k" "k < Bs" | (all_out) "Bs \<le> k" "Bs \<le> T"
    | (bottom) "Bs \<le> k" "T < Bs"
    by linarith
  then show ?thesis
  proof cases
    case top
    then have tk: "t k = k" "t (Suc k) = Suc k" "c k = k" "c (Suc k) = Suc k"
      using TB by (simp_all add: t_def c_def)
    show ?thesis unfolding tk using test top
      by (simp add: KernelWalkStep_def next_row next_filter next_count del: of_nat_Suc)
  next
    case valid
    then have tk: "t k = T" "t (Suc k) = T" "c k = T" "c (Suc k) = T"
      using TB by (auto simp: t_def c_def min_def)
    show ?thesis unfolding tk using test valid
      by (simp add: KernelWalkStep_def next_row del: of_nat_Suc)
  next
    case all_out
    then have tk: "t k = k" "t (Suc k) = Suc k" "c (Suc k) = Suc (c k)"
      using TB by (auto simp: t_def c_def min_def)
    show ?thesis unfolding tk using test all_out
      by (simp add: KernelWalkStep_def next_row next_filter next_count del: of_nat_Suc)
  next
    case bottom
    then have tk: "t k = T" "t (Suc k) = T" "c (Suc k) = Suc (c k)"
      using TB by (auto simp: t_def c_def min_def)
    have "T < k" using bottom by simp
    then have "a + int T * D < a + int k * D" using D(1) by simp
    then have ne: "a + int k * D \<noteq> a + int T * D" by linarith
    have "- (2 ^ 63) \<le> a + int T * D" "a + int T * D < 2 ^ 63"
      using rng [of T] \<open>T < k\<close> by simp_all
    then have "(word_of_int (a + int k * D) :: size_t) \<noteq> word_of_int (a + int T * D)"
      using ne rk word_of_int_inj_signed by blast
    then have "aw + of_nat k * Dw \<noteq> aw + of_nat T * Dw" unfolding row .
    then show ?thesis unfolding tk using test bottom
      by (simp add: KernelWalkStep_def next_row next_count del: of_nat_Suc)
  qed
qed

lemma walk_all:
  fixes a D H :: int and k n :: nat and Hw Dw aw KHw FS :: size_t and f :: float_ptr
  defines "T \<equiv> nat (max 0 (ceil_div (- a) D))"
    and "Bs \<equiv> nat (max 0 (ceil_div (H - a) D))"
  defines "t \<equiv> \<lambda>k. if min k Bs \<le> T then k else T"
    and "c \<equiv> \<lambda>k. min k T + (k - Bs)"
  assumes D: "0 < D" "Dw = word_of_int D" and aw: "aw = word_of_int a"
    and H: "H = uint Hw" "H < 2 ^ 63"
    and lo: "- (2 ^ 63) \<le> a" and hi: "a + int (k + n) * D < 2 ^ 63"
  shows "KernelWalk n Hw Dw FS
           (ptr_add f (FS * of_nat (t k)), aw + of_nat (t k) * Dw,
            KHw - of_nat (c k), aw + of_nat k * Dw)
         = (ptr_add f (FS * of_nat (t (k + n))), aw + of_nat (t (k + n)) * Dw,
            KHw - of_nat (c (k + n)), aw + of_nat (k + n) * Dw)"
  using hi
proof (induction n arbitrary: k)
  case 0
  show ?case by simp
next
  case (Suc n)
  have "int (Suc k) * D \<le> int (k + Suc n) * D" using D(1) by (intro mult_right_mono) simp_all
  then have h1: "a + int (Suc k) * D < 2 ^ 63" using Suc.prems by linarith
  have h2: "a + int (Suc k + n) * D < 2 ^ 63" using Suc.prems by simp
  have step: "KernelWalkStep Hw Dw FS
           (ptr_add f (FS * of_nat (t k)), aw + of_nat (t k) * Dw,
            KHw - of_nat (c k), aw + of_nat k * Dw)
         = (ptr_add f (FS * of_nat (t (Suc k))), aw + of_nat (t (Suc k)) * Dw,
            KHw - of_nat (c (Suc k)), aw + of_nat (Suc k) * Dw)"
    unfolding t_def c_def T_def Bs_def using D aw H lo h1 by (rule walk_step)
  show ?case
    unfolding KernelWalk.simps step using Suc.IH [OF h2] by simp
qed

lemma count_from:
  "length (filter (\<lambda>j. b \<le> j) [0 ..< n]) = n - b"
  by (induction n) (auto simp: Suc_diff_le)

lemma walk_result:
  fixes wb :: "'a MLAS_NCHWC_WORK_BLOCK_scheme" and row FS :: size_t and f :: float_ptr
  defines "a \<equiv> uint row * uint (StrideHeight wb) - uint (PaddingLeftY wb)"
  defines "T \<equiv> nat (max 0 (ceil_div (- a) (uint (DilationHeight wb))))"
    and "Bs \<equiv> nat (max 0 (ceil_div (uint (InputHeight wb) - a) (uint (DilationHeight wb))))"
    and "K \<equiv> unat (KernelHeight wb)"
  assumes pad: "OutputCountY wb \<le> row - OutputCountLeftPadY wb"
    and D: "DilationHeight wb \<noteq> 0"
    and bounds: "unat (InputHeight wb) < 2 ^ 63" "unat (PaddingLeftY wb) \<le> 2 ^ 63"
      "unat row * unat (StrideHeight wb)
         + unat (KernelHeight wb) * unat (DilationHeight wb) < 2 ^ 63"
  shows "ComputeEffectiveKernel wb row FS f =
           (ptr_add f (FS * of_nat (if min K Bs \<le> T then K else T)),
            (row * StrideHeight wb - PaddingLeftY wb)
              + of_nat (if min K Bs \<le> T then K else T) * DilationHeight wb,
            KernelHeight wb - of_nat (min K T + (K - Bs)))"
proof -
  let ?D = "uint (DilationHeight wb)" and ?H = "uint (InputHeight wb)"
  let ?aw = "row * StrideHeight wb - PaddingLeftY wb"
  have "?D \<noteq> 0" using D by (simp add: uint_0_iff)
  moreover have "0 \<le> ?D" by (rule uint_nonnegative)
  ultimately have D0: "0 < ?D" by linarith
  have Dw: "DilationHeight wb = word_of_int ?D" by (rule word_of_int_uint [symmetric])
  have aw: "?aw = word_of_int a" by (simp add: a_def)
  have "int (unat (InputHeight wb)) < int (2 ^ 63)"
    using bounds(1) by (rule iffD2 [OF of_nat_less_iff])
  then have H: "?H < 2 ^ 63" by simp
  have "int (unat (PaddingLeftY wb)) \<le> int (2 ^ 63)"
    using bounds(2) by (rule iffD2 [OF of_nat_le_iff])
  then have "uint (PaddingLeftY wb) \<le> 2 ^ 63" by simp
  moreover have "0 \<le> uint row * uint (StrideHeight wb)"
    by (intro mult_nonneg_nonneg uint_nonnegative)
  ultimately have lo: "- (2 ^ 63) \<le> a" unfolding a_def by linarith
  have "int (unat row * unat (StrideHeight wb)
         + unat (KernelHeight wb) * unat (DilationHeight wb)) < int (2 ^ 63)"
    using bounds(3) by (rule iffD2 [OF of_nat_less_iff])
  then have "uint row * uint (StrideHeight wb) + int K * ?D < 2 ^ 63"
    by (simp add: K_def)
  moreover have "0 \<le> uint (PaddingLeftY wb)" by (rule uint_nonnegative)
  ultimately have "a + int K * ?D < 2 ^ 63" unfolding a_def by linarith
  then have hi: "a + int (0 + K) * ?D < 2 ^ 63" by simp
  have w: "KernelWalk K (InputHeight wb) (DilationHeight wb) FS
           (ptr_add f (FS * of_nat (if min 0 Bs \<le> T then 0 else T)),
            ?aw + of_nat (if min 0 Bs \<le> T then 0 else T) * DilationHeight wb,
            KernelHeight wb - of_nat (min 0 T + (0 - Bs)), ?aw + of_nat 0 * DilationHeight wb)
         = (ptr_add f (FS * of_nat (if min (0 + K) Bs \<le> T then 0 + K else T)),
            ?aw + of_nat (if min (0 + K) Bs \<le> T then 0 + K else T) * DilationHeight wb,
            KernelHeight wb - of_nat (min (0 + K) T + (0 + K - Bs)),
            ?aw + of_nat (0 + K) * DilationHeight wb)"
    unfolding T_def Bs_def using D0 Dw aw refl H lo hi by (rule walk_all)
  have init: "(ptr_add f (FS * of_nat (if min 0 Bs \<le> T then 0 else T)),
            ?aw + of_nat (if min 0 Bs \<le> T then 0 else T) * DilationHeight wb,
            KernelHeight wb - of_nat (min 0 T + (0 - Bs)), ?aw + of_nat 0 * DilationHeight wb)
          = (f, ?aw, KernelHeight wb, ?aw)"
    by (simp add: ptr_add_def)
  show ?thesis
    using pad w unfolding init
    by (simp add: ComputeEffectiveKernel_def Let_def K_def)
qed

text \<open>
  Claim C7, as the code has it.  For an output row in a pad region, with a nonzero
  dilation and sizes below \<open>2 ^ 63\<close>, the effective kernel height of the walk is
  \<open>max(0, KH - ih_trim_top - ih_trim_bot)\<close>.  Whenever the walk leaves at least
  one kernel row, the first input row, the effective kernel height and the filter
  pointer of the walk are exactly those of the closed form: \<open>ih\<close> is advanced past
  the trimmed top rows and the filter by \<open>ih_trim_top\<close> filter rows.  When the walk
  leaves no kernel row, it has advanced \<open>ih\<close> by \<open>KH * DH\<close> and the filter by
  \<open>KH\<close> filter rows; its \<open>ih\<close> is that of the closed form exactly when
  \<open>ih_trim_top = KH\<close>, and then the effective kernel height and the filter pointer
  of the closed form are those of the walk as well.
\<close>

theorem closed_form_agrees:
  fixes wb :: "'a MLAS_NCHWC_WORK_BLOCK_scheme" and row FS :: size_t and f :: float_ptr
  assumes pad: "OutputCountY wb \<le> row - OutputCountLeftPadY wb"
    and D: "DilationHeight wb \<noteq> 0"
    and bounds: "unat (InputHeight wb) < 2 ^ 63" "unat (PaddingLeftY wb) \<le> 2 ^ 63"
      "unat row * unat (StrideHeight wb)
         + unat (KernelHeight wb) * unat (DilationHeight wb) < 2 ^ 63"
  shows "case ComputeEffectiveKernel wb row FS f of (f', ih', ekh') \<Rightarrow>
           (case ClosedFormKernel_spec (uint row) (uint (StrideHeight wb))
                   (uint (PaddingLeftY wb)) (uint (DilationHeight wb))
                   (uint (KernelHeight wb)) (uint (InputHeight wb))
            of (ih_cf, kh_cf, rows_cf) \<Rightarrow>
              uint ekh' = max 0 kh_cf \<and>
              (ekh' \<noteq> 0 \<longrightarrow>
                 sint ih' = ih_cf \<and> uint ekh' = kh_cf \<and> f' = ptr_add f (FS * of_int rows_cf)) \<and>
              (ekh' = 0 \<longrightarrow>
                 sint ih' = uint row * uint (StrideHeight wb) - uint (PaddingLeftY wb)
                              + uint (KernelHeight wb) * uint (DilationHeight wb) \<and>
                 f' = ptr_add f (FS * KernelHeight wb) \<and>
                 (sint ih' = ih_cf \<longleftrightarrow> rows_cf = uint (KernelHeight wb)) \<and>
                 (rows_cf = uint (KernelHeight wb) \<longrightarrow>
                    kh_cf = 0 \<and> f' = ptr_add f (FS * of_int rows_cf))))"
proof -
  define a where "a = uint row * uint (StrideHeight wb) - uint (PaddingLeftY wb)"
  let ?D = "uint (DilationHeight wb)" and ?H = "uint (InputHeight wb)"
  define T where "T = nat (max 0 (ceil_div (- a) ?D))"
  define Bs where "Bs = nat (max 0 (ceil_div (?H - a) ?D))"
  define K where "K = unat (KernelHeight wb)"
  define tK where "tK = (if min K Bs \<le> T then K else T)"
  define cK where "cK = min K T + (K - Bs)"
  let ?aw = "row * StrideHeight wb - PaddingLeftY wb"
  have res: "ComputeEffectiveKernel wb row FS f =
           (ptr_add f (FS * of_nat tK), ?aw + of_nat tK * DilationHeight wb,
            KernelHeight wb - of_nat cK)"
    unfolding tK_def cK_def T_def Bs_def K_def a_def
    using pad D bounds by (rule walk_result)
  have "?D \<noteq> 0" using D by (simp add: uint_0_iff)
  moreover have "0 \<le> ?D" by (rule uint_nonnegative)
  ultimately have D0: "0 < ?D" by linarith
  have H0: "0 \<le> ?H" by (rule uint_nonnegative)
  have TB: "T \<le> Bs" unfolding T_def Bs_def using D0 H0 by (rule top_le_bottom)
  have top: "ih_trim_top_spec (uint row) (uint (StrideHeight wb)) (uint (PaddingLeftY wb)) ?D
               = int T"
    by (simp add: ih_trim_top_spec_def T_def a_def)
  have KH: "nat (uint (KernelHeight wb)) = K" by (simp add: K_def)
  have "(?H \<le> a + int j * ?D) = (Bs \<le> j)" for j
    using rows_below [OF D0, of a j ?H] unfolding Bs_def by linarith
  then have bot: "ih_trim_bot_spec (uint row) (uint (StrideHeight wb)) (uint (PaddingLeftY wb))
               ?D (uint (KernelHeight wb)) ?H = int (K - Bs)"
    unfolding ih_trim_bot_spec_def KH a_def [symmetric] by (simp only: count_from)
  have cf: "ClosedFormKernel_spec (uint row) (uint (StrideHeight wb))
                   (uint (PaddingLeftY wb)) ?D (uint (KernelHeight wb)) ?H
             = (a + int T * ?D, int K - int T - int (K - Bs), int T)"
    unfolding ClosedFormKernel_spec_def top bot Let_def a_def K_def by simp
  have cle: "cK \<le> K" using TB unfolding cK_def by arith
  have "KernelHeight wb = of_nat K" by (simp add: K_def)
  then have "KernelHeight wb - of_nat cK = of_nat (K - cK)" using cle by simp
  moreover have "unat (KernelHeight wb) < 2 ^ 64"
    using unsigned_less [of "KernelHeight wb", where 'a = nat] by simp
  then have "K - cK < 2 ^ 64" unfolding K_def by arith
  moreover note this
  ultimately have ek: "unat (KernelHeight wb - of_nat cK) = K - cK" by (simp add: unat_of_nat)
  then have "int (unat (KernelHeight wb - of_nat cK)) = int (K - cK)" by simp
  then have eku: "uint (KernelHeight wb - of_nat cK) = int (K - cK)" by simp
  have c1: "int (K - cK) = max 0 (int K - int T - int (K - Bs))"
    using TB unfolding cK_def by arith
  have "int (unat (PaddingLeftY wb)) \<le> int (2 ^ 63)"
    using bounds(2) by (rule iffD2 [OF of_nat_le_iff])
  then have pl: "uint (PaddingLeftY wb) \<le> 2 ^ 63" by simp
  have rs: "0 \<le> uint row * uint (StrideHeight wb)"
    by (intro mult_nonneg_nonneg uint_nonnegative)
  have pl0: "0 \<le> uint (PaddingLeftY wb)" by (rule uint_nonnegative)
  have "int (unat row * unat (StrideHeight wb)
       + unat (KernelHeight wb) * unat (DilationHeight wb)) < int (2 ^ 63)"
    using bounds(3) by (rule iffD2 [OF of_nat_less_iff])
  then have b3: "uint row * uint (StrideHeight wb) + int K * ?D < 2 ^ 63"
    by (simp add: K_def)
  have rng: "- (2 ^ 63) \<le> a + int j * ?D \<and> a + int j * ?D < 2 ^ 63" if "j \<le> K" for j
  proof -
    have "0 \<le> int j * ?D" using D0 by simp
    moreover have "int j * ?D \<le> int K * ?D" using that D0 by (intro mult_right_mono) simp_all
    ultimately show ?thesis using pl rs pl0 b3 unfolding a_def by linarith
  qed
  have roww: "?aw + of_nat j * DilationHeight wb = word_of_int (a + int j * ?D)" for j
    by (simp add: a_def)
  have KHw: "KernelHeight wb = of_nat K" by (simp add: K_def)
  have c2: "sint (?aw + of_nat tK * DilationHeight wb) = a + int T * ?D \<and>
            int (K - cK) = int K - int T - int (K - Bs) \<and>
            ptr_add f (FS * of_nat tK) = ptr_add f (FS * of_int (int T))"
    if nz: "KernelHeight wb - of_nat cK \<noteq> 0"
  proof -
    have "unat (KernelHeight wb - of_nat cK) \<noteq> 0" using nz by (simp only: unat_0_iff simp_thms)
    then have "K - cK \<noteq> 0" unfolding ek .
    then have lt: "cK < K" by simp
    have nle: "\<not> min K Bs \<le> T"
    proof
      assume "min K Bs \<le> T"
      then have "K \<le> cK" using TB unfolding cK_def by arith
      with lt show False by simp
    qed
    then have t: "tK = T" by (simp add: tK_def)
    have TK: "T < K" using nle by arith
    have r: "- (2 ^ 63) \<le> a + int T * ?D" "a + int T * ?D < 2 ^ 63"
      using rng [of T] TK by simp_all
    have "?aw + of_nat T * DilationHeight wb = word_of_int (a + int T * ?D)"
      by (simp add: a_def)
    then have s: "sint (?aw + of_nat tK * DilationHeight wb) = a + int T * ?D"
      unfolding t using sint_word_of_int_signed [OF r] by simp
    have "cK = T + (K - Bs)" using TK unfolding cK_def by arith
    then have k: "int (K - cK) = int K - int T - int (K - Bs)" using lt by arith
    show ?thesis using s k t by simp
  qed
  have c3: "sint (?aw + of_nat tK * DilationHeight wb) = a + int K * ?D \<and>
            ptr_add f (FS * of_nat tK) = ptr_add f (FS * KernelHeight wb) \<and>
            (sint (?aw + of_nat tK * DilationHeight wb) = a + int T * ?D \<longleftrightarrow> int T = int K) \<and>
            (int T = int K \<longrightarrow> int K - int T - int (K - Bs) = 0 \<and>
               ptr_add f (FS * of_nat tK) = ptr_add f (FS * of_int (int T)))"
    if z: "KernelHeight wb - of_nat cK = 0"
  proof -
    have "unat (KernelHeight wb - of_nat cK) = 0" using z by simp
    then have ge: "K \<le> cK" unfolding ek by simp
    have le: "min K Bs \<le> T"
    proof (rule ccontr)
      assume "\<not> min K Bs \<le> T"
      then have "cK < K" using TB unfolding cK_def by arith
      with ge show False by simp
    qed
    then have t: "tK = K" by (simp add: tK_def)
    have r: "- (2 ^ 63) \<le> a + int K * ?D" "a + int K * ?D < 2 ^ 63"
      using rng [of K] by simp_all
    have s: "sint (?aw + of_nat tK * DilationHeight wb) = a + int K * ?D"
      unfolding t roww using r by (rule sint_word_of_int_signed)
    have p: "ptr_add f (FS * of_nat tK) = ptr_add f (FS * KernelHeight wb)"
      unfolding t KHw [symmetric] ..
    have q: "(a + int K * ?D = a + int T * ?D) = (int T = int K)" using D0 by auto
    have k0: "int K - int T - int (K - Bs) = 0" if "int T = int K"
      using that TB by arith
    have p2: "ptr_add f (FS * of_nat tK) = ptr_add f (FS * of_int (int T))" if "int T = int K"
      using that unfolding t by simp
    show ?thesis using s p q k0 p2 by simp
  qed
  have KHu: "uint (KernelHeight wb) = int K" by (simp add: K_def)
  have Dne: "?D \<noteq> 0" using D0 by simp
  show ?thesis unfolding res cf using eku c1 c2 c3 Dne by (auto simp: a_def KHu)
qed

text \<open>
  Claim C7 as stated fails: in the sample dispatch, output row 3 is in the pad region
  and all three kernel rows lie beyond the input; the walk advances \<open>ih\<close> from 2 to 5
  and the filter by three rows, where the closed form trims nothing at the top and
  leaves \<open>ih\<close> at 2 and the filter in place.
\<close>

theorem closed_form_agrees_counterexample:
  "OutputCountY sample_trim_work_block \<le> 3 - OutputCountLeftPadY sample_trim_work_block \<and>
   ComputeEffectiveKernel sample_trim_work_block 3 192 8192 = (ptr_add 8192 (192 * 3), 5, 0) \<and>
   ClosedFormKernel_spec (uint (3 :: size_t)) (uint (StrideHeight sample_trim_work_block))
     (uint (PaddingLeftY sample_trim_work_block)) (uint (DilationHeight sample_trim_work_block))
     (uint (KernelHeight sample_trim_work_block)) (uint (InputHeight sample_trim_work_block))
     = (2, 0, 0) \<and>
   sint (5 :: size_t) \<noteq> 2 \<and> ptr_add 8192 (192 * 3) \<noteq> ptr_add 8192 (192 * of_int 0)"
  by code_simp

text \<open>
  The instances are output rows 0 and 3 of the sample: row 0 keeps two kernel rows,
  row 3 keeps none.
\<close>

theorem closed_form_agrees_witness:
  "(case ComputeEffectiveKernel sample_trim_work_block 0 192 8192 of (f', ih', ekh') \<Rightarrow>
      (case ClosedFormKernel_spec 0 1 1 1 3 2 of (ih_cf, kh_cf, rows_cf) \<Rightarrow>
         uint ekh' = max 0 kh_cf \<and>
         (ekh' \<noteq> 0 \<longrightarrow>
            sint ih' = ih_cf \<and> uint ekh' = kh_cf \<and> f' = ptr_add 8192 (192 * of_int rows_cf)) \<and>
         (ekh' = 0 \<longrightarrow>
            sint ih' = 0 * 1 - 1 + 3 * 1 \<and>
            f' = ptr_add 8192 (192 * 3) \<and>
            (sint ih' = ih_cf \<longleftrightarrow> rows_cf = 3) \<and>
            (rows_cf = 3 \<longrightarrow> kh_cf = 0 \<and> f' = ptr_add 8192 (192 * of_int rows_cf))))) \<and>
   ComputeEffectiveKernel sample_trim_work_block 0 192 8192 = (ptr_add 8192 (192 * 1), 0, 2) \<and>
   ClosedFormKernel_spec 0 1 1 1 3 2 = (0, 2, 1) \<and>
   (case ComputeEffectiveKernel sample_trim_work_block 3 192 8192 of (f', ih', ekh') \<Rightarrow>
      (case ClosedFormKernel_spec 3 1 1 1 3 2 of (ih_cf, kh_cf, rows_cf) \<Rightarrow>
         uint ekh' = max 0 kh_cf \<and>
         (ekh' \<noteq> 0 \<longrightarrow>
            sint ih' = ih_cf \<and> uint ekh' = kh_cf \<and> f' = ptr_add 8192 (192 * of_int rows_cf)) \<and>
         (ekh' = 0 \<longrightarrow>
            sint ih' = 3 * 1 - 1 + 3 * 1 \<and>
            f' = ptr_add 8192 (192 * 3) \<and>
            (sint ih' = ih_cf \<longleftrightarrow> rows_cf = 3) \<and>
            (rows_cf = 3 \<longrightarrow> kh_cf = 0 \<and> f' = ptr_add 8192 (192 * of_int rows_cf))))) \<and>
   ComputeEffectiveKernel sample_trim_work_block 3 192 8192 = (ptr_add 8192 (192 * 3), 5, 0) \<and>
   ClosedFormKernel_spec 3 1 1 1 3 2 = (2, 0, 0)"
proof -
  let ?s = sample_trim_work_block
  have v: "StrideHeight ?s = 1" "PaddingLeftY ?s = 1" "DilationHeight ?s = 1"
    "KernelHeight ?s = 3" "InputHeight ?s = 2" by code_simp+
  have h1: "OutputCountY ?s \<le> 0 - OutputCountLeftPadY ?s" by code_simp
  have g1: "OutputCountY ?s \<le> 3 - OutputCountLeftPadY ?s" by code_simp
  have h2: "DilationHeight ?s \<noteq> 0" by (simp add: v)
  have h3: "unat (InputHeight ?s) < 2 ^ 63" by (simp add: v)
  have h4: "unat (PaddingLeftY ?s) \<le> 2 ^ 63" by (simp add: v)
  have h5: "unat (0 :: size_t) * unat (StrideHeight ?s)
              + unat (KernelHeight ?s) * unat (DilationHeight ?s) < 2 ^ 63" by (simp add: v)
  have g5: "unat (3 :: size_t) * unat (StrideHeight ?s)
              + unat (KernelHeight ?s) * unat (DilationHeight ?s) < 2 ^ 63" by (simp add: v)
  have e: "ComputeEffectiveKernel ?s 0 192 8192 = (ptr_add 8192 (192 * 1), 0, 2)"
    "ClosedFormKernel_spec 0 1 1 1 3 2 = (0, 2, 1)"
    "ComputeEffectiveKernel ?s 3 192 8192 = (ptr_add 8192 (192 * 3), 5, 0)"
    "ClosedFormKernel_spec 3 1 1 1 3 2 = (2, 0, 0)" by code_simp+
  from closed_form_agrees [OF h1 h2 h3 h4 h5, of 192 8192]
    closed_form_agrees [OF g1 h2 h3 h4 g5, of 192 8192] e
  show ?thesis by (simp add: v)
qed

end
